(* ===== verification/Go_Prelude.thy ===== *)
theory Go_Prelude
  imports Complex_Main "HOL-Library.Multiset" "HOL-Library.AList" "HOL-Library.Sublist"
begin

text \<open>
  Shared vocabulary of the development: the fact collections the component theories
  extend, answer streams, association lists that stand for Go maps, bounded lists,
  ordered selection, and transition systems with their reachable states.
\<close>

named_theorems go_std \<open>evaluation of the modelled parts of the Go standard library\<close>
named_theorems sql_ops \<open>unfolding of the SQL statements of the storage layer\<close>
named_theorems world_frame \<open>which parts of the world an operation leaves alone\<close>

section \<open>Answer streams\<close>

text \<open>
  What the environment will answer (clock readings, verdicts of the database driver) is a
  function from the index of the question; asking consumes the first answer.
\<close>

definition stream_head :: "(nat \<Rightarrow> 'a) \<Rightarrow> 'a" where
  "stream_head s = s 0"

definition stream_tail :: "(nat \<Rightarrow> 'a) \<Rightarrow> (nat \<Rightarrow> 'a)" where
  "stream_tail s = (\<lambda>i. s (Suc i))"

lemma stream_head_const [simp]: "stream_head (\<lambda>_. x) = x"
  by (simp add: stream_head_def)

lemma stream_tail_const [simp]: "stream_tail (\<lambda>_. x) = (\<lambda>_. x)"
  by (simp add: stream_tail_def)

lemma stream_tail_all: "(\<And>i. P (s i)) \<Longrightarrow> P (stream_tail s i)"
  by (simp add: stream_tail_def)

lemma stream_head_all: "(\<And>i. P (s i)) \<Longrightarrow> P (stream_head s)"
  by (simp add: stream_head_def)

section \<open>Ordered selection\<close>

text \<open>
  The engine reads the rows of a table in an order of its own, given by a rank of their
  positions. \<open>order_by key rank xs\<close> is \<open>ORDER BY key\<close>: SQL leaves the order of rows with equal
  keys to the engine, so ties stay in the order the rows were read in.
\<close>

definition visit :: "(nat \<Rightarrow> int) \<Rightarrow> 'r list \<Rightarrow> 'r list" where
  "visit rank xs = map snd (sort_key (rank \<circ> fst) (enumerate 0 xs))"

definition order_by :: "('r \<Rightarrow> int) \<Rightarrow> (nat \<Rightarrow> int) \<Rightarrow> 'r list \<Rightarrow> 'r list" where
  "order_by key rank xs = sort_key key (visit rank xs)"

definition limit_rows :: "int \<Rightarrow> 'r list \<Rightarrow> 'r list" where
  "limit_rows n xs = (if n < 0 then xs else take (nat n) xs)"

lemma mset_visit [simp]: "mset (visit rank xs) = mset xs"
proof -
  have "mset (visit rank xs) = image_mset snd (mset (enumerate 0 xs))" by (simp add: visit_def)
  also have "\<dots> = mset (map snd (enumerate 0 xs))" by (rule mset_map [symmetric])
  finally show ?thesis by simp
qed

lemma set_visit [simp]: "set (visit rank xs) = set xs"
  by (metis mset_visit set_mset_mset)

lemma visit_const [simp]: "visit (\<lambda>_. c) xs = xs"
  by (simp add: visit_def comp_def sort_key_const)

lemma visit_Nil [simp]: "visit rank [] = []"
  by (simp add: visit_def)

lemma visit_single [simp]: "visit rank [x] = [x]"
  by (simp add: visit_def)

lemma mset_order_by [simp]: "mset (order_by key rank xs) = mset xs"
  by (simp add: order_by_def)

lemma set_order_by [simp]: "set (order_by key rank xs) = set xs"
  by (simp add: order_by_def)

lemma length_order_by [simp]: "length (order_by key rank xs) = length xs"
  by (metis mset_order_by size_mset)

lemma sorted_order_by: "sorted (map key (order_by key rank xs))"
  by (simp add: order_by_def)

lemma distinct_map_order_by: "distinct (map f xs) \<Longrightarrow> distinct (map f (order_by key rank xs))"
  by (metis mset_eq_imp_distinct_iff mset_map mset_order_by)

lemma order_by_const [simp]: "order_by key (\<lambda>_. c) xs = sort_key key xs"
  by (simp add: order_by_def)

lemma set_limit_rows: "set (limit_rows n xs) \<subseteq> set xs"
  by (auto simp: limit_rows_def dest: in_set_takeD)

lemma length_limit_rows: "0 \<le> n \<Longrightarrow> int (length (limit_rows n xs)) \<le> n"
  by (simp add: limit_rows_def)

lemma length_limit_rows_le: "length (limit_rows n xs) \<le> length xs"
  by (simp add: limit_rows_def)

lemma sorted_limit_rows: "sorted (map f xs) \<Longrightarrow> sorted (map f (limit_rows n xs))"
  by (simp add: limit_rows_def take_map [symmetric] sorted_wrt_take)

lemma distinct_limit_rows: "distinct (map f xs) \<Longrightarrow> distinct (map f (limit_rows n xs))"
  by (simp add: limit_rows_def take_map [symmetric])

text \<open>The first rows of a sorted selection are the extreme ones: no row left out sorts before.\<close>

lemma limit_rows_extreme:
  assumes "sorted (map key xs)" and "x \<in> set (limit_rows n xs)"
    and "y \<in> set xs" and "y \<notin> set (limit_rows n xs)"
  shows "key x \<le> (key y :: int)"
proof -
  from assms(3,4) have n: "\<not> n < 0" by (auto simp: limit_rows_def)
  let ?t = "take (nat n) xs" and ?d = "drop (nat n) xs"
  have s: "sorted (map key ?t @ map key ?d)"
    using assms(1) by (metis append_take_drop_id map_append)
  have "x \<in> set ?t" using assms(2) n by (simp add: limit_rows_def)
  moreover have "y \<in> set ?d"
    using assms(3,4) n by (metis Un_iff append_take_drop_id limit_rows_def set_append)
  ultimately show ?thesis using s by (auto simp: sorted_append)
qed

text \<open>A limited selection and the rows it leaves out, against the multiset of all rows.\<close>

lemma limited_selection:
  assumes "0 \<le> n"
  obtains out where "mset (limit_rows n (order_by key rank xs)) + mset out = mset xs"
    and "length (limit_rows n (order_by key rank xs)) = min (nat n) (length xs)"
    and "sorted (map key (limit_rows n (order_by key rank xs)))"
    and "\<forall>x \<in> set (limit_rows n (order_by key rank xs)). \<forall>y \<in> set out. key x \<le> key y"
proof -
  let ?all = "order_by key rank xs"
  let ?t = "take (nat n) ?all" and ?d = "drop (nat n) ?all"
  have l: "limit_rows n ?all = ?t" using assms by (simp add: limit_rows_def)
  have s: "sorted (map key ?t @ map key ?d)"
    using sorted_order_by [of key rank xs] by (metis append_take_drop_id map_append)
  have "mset ?t + mset ?d = mset xs" by (metis append_take_drop_id mset_append mset_order_by)
  moreover have "length ?t = min (nat n) (length xs)" by simp
  moreover have "sorted (map key ?t)" "\<forall>x \<in> set ?t. \<forall>y \<in> set ?d. key x \<le> key y"
    using s by (auto simp: sorted_append)
  ultimately show ?thesis using that [of ?d] unfolding l by blast
qed

section \<open>Maps kept as association lists\<close>

text \<open>
  A Go map that the program ranges over is an association list with distinct keys: looking
  a key up is \<open>map_of\<close>, storing is \<open>AList.update\<close>, \<open>delete\<close> is \<open>AList.delete\<close>.
\<close>

definition keys_distinct :: "('k \<times> 'v) list \<Rightarrow> bool" where
  "keys_distinct m = distinct (map fst m)"

lemma keys_distinct_Nil [simp]: "keys_distinct []"
  by (simp add: keys_distinct_def)

lemma keys_distinct_update [simp, intro]: "keys_distinct m \<Longrightarrow> keys_distinct (AList.update k v m)"
  by (simp add: keys_distinct_def distinct_update)

lemma keys_distinct_delete [simp, intro]: "keys_distinct m \<Longrightarrow> keys_distinct (AList.delete k m)"
  by (simp add: keys_distinct_def distinct_delete)

lemma map_of_update [simp]: "map_of (AList.update k v m) = (map_of m)(k \<mapsto> v)"
  by (rule update_conv')

lemma map_of_delete [simp]: "map_of (AList.delete k m) = (map_of m)(k := None)"
  by (rule delete_conv')

lemma map_of_in_set: "keys_distinct m \<Longrightarrow> (k, v) \<in> set m \<longleftrightarrow> map_of m k = Some v"
  by (simp add: keys_distinct_def)

section \<open>Lists\<close>

lemma subseq_snocI: "subseq xs ys \<Longrightarrow> subseq (xs @ [x]) (ys @ [x])"
  by (simp add: list_emb_append_mono)

lemma subseq_extendI: "subseq xs ys \<Longrightarrow> subseq xs (ys @ zs)"
  by (metis append.right_neutral list_emb_Nil list_emb_append_mono)

lemma map_filter_append: "List.map_filter f (xs @ ys) = List.map_filter f xs @ List.map_filter f ys"
  by (simp add: List.map_filter_def)

section \<open>Transition systems\<close>

inductive reach :: "('s \<Rightarrow> bool) \<Rightarrow> ('s \<Rightarrow> 's \<Rightarrow> bool) \<Rightarrow> 's \<Rightarrow> bool"
  for init :: "'s \<Rightarrow> bool" and step :: "'s \<Rightarrow> 's \<Rightarrow> bool" where
  reach_init: "init s \<Longrightarrow> reach init step s"
| reach_step: "reach init step s \<Longrightarrow> step s t \<Longrightarrow> reach init step t"

lemma reach_rtranclp: "step\<^sup>*\<^sup>* s t \<Longrightarrow> reach init step s \<Longrightarrow> reach init step t"
  by (induction rule: rtranclp_induct) (auto intro: reach_step)

locale invariant_system =
  fixes init :: "'s \<Rightarrow> bool"
    and step :: "'s \<Rightarrow> 's \<Rightarrow> bool"
    and inv :: "'s \<Rightarrow> bool"
  assumes inv_init: "init s \<Longrightarrow> inv s"
    and inv_step: "inv s \<Longrightarrow> step s t \<Longrightarrow> inv t"
begin

lemma inv_reach: "reach init step s \<Longrightarrow> inv s"
  by (induction rule: reach.induct) (auto intro: inv_init inv_step)

lemma inv_steps: "step\<^sup>*\<^sup>* s t \<Longrightarrow> inv s \<Longrightarrow> inv t"
  by (induction rule: rtranclp_induct) (auto intro: inv_step)

end

end
