(* ===== verification/Go_Float.thy ===== *)
theory Go_Float
  imports Go_Prelude "HOL-Library.Log_Nat"
begin

text \<open>
  Go's \<open>float64\<close>: IEEE 754 double precision with round to nearest, ties to even. A finite
  value is the rational it denotes (the two zeros are one value here: the program never
  distinguishes them); comparisons are the IEEE ones, so every comparison with NaN is false.
\<close>

datatype float64 = Fin rat | PosInf | NegInf | NaN

instantiation float64 :: ord
begin

fun less_eq_float64 :: "float64 \<Rightarrow> float64 \<Rightarrow> bool" where
  "less_eq_float64 (Fin x) (Fin y) = (x \<le> y)"
| "less_eq_float64 NaN y = False"
| "less_eq_float64 x NaN = False"
| "less_eq_float64 NegInf y = True"
| "less_eq_float64 x PosInf = True"
| "less_eq_float64 x NegInf = False"
| "less_eq_float64 PosInf y = False"

fun less_float64 :: "float64 \<Rightarrow> float64 \<Rightarrow> bool" where
  "less_float64 (Fin x) (Fin y) = (x < y)"
| "less_float64 NaN y = False"
| "less_float64 x NaN = False"
| "less_float64 NegInf NegInf = False"
| "less_float64 NegInf y = True"
| "less_float64 PosInf y = False"
| "less_float64 x PosInf = True"
| "less_float64 x NegInf = False"

instance ..

end

instantiation float64 :: zero
begin

definition zero_float64 :: float64 where
  "zero_float64 = Fin 0"

instance ..

end

lemma float_le_zero [simp]: "(Fin x \<le> (0::float64)) = (x \<le> 0)"
  by (simp add: zero_float64_def)

lemma float_NaN_le [simp]: "\<not> NaN \<le> x" "\<not> x \<le> NaN"
  by (cases x; simp)+

lemma float_le_trans: "x \<le> y \<Longrightarrow> y \<le> z \<Longrightarrow> x \<le> (z :: float64)"
  by (cases x; cases y; cases z) auto

lemma float_less_not_le: "x < y \<Longrightarrow> \<not> y \<le> (x :: float64)"
  by (cases x; cases y) auto

lemma float_le_total: "x \<noteq> NaN \<Longrightarrow> y \<noteq> NaN \<Longrightarrow> x \<le> y \<or> y < (x :: float64)"
  by (cases x; cases y) auto

section \<open>Rounding\<close>

definition round_half_even :: "rat \<Rightarrow> int" where
  "round_half_even x =
     (let n = \<lfloor>x\<rfloor>; d = x - of_int n
      in if d < 1 / 2 then n else if 1 / 2 < d then n + 1 else if even n then n else n + 1)"

lemma round_half_even_of_int [simp]: "round_half_even (of_int n) = n"
  by (simp add: round_half_even_def)

lemma round_half_even_ge: "of_int n \<le> x \<Longrightarrow> n \<le> round_half_even x"
proof -
  assume "of_int n \<le> x"
  then have "n \<le> \<lfloor>x\<rfloor>" by (simp add: le_floor_iff)
  then show ?thesis by (auto simp: round_half_even_def Let_def)
qed

lemma round_half_even_le: "x \<le> of_int n \<Longrightarrow> round_half_even x \<le> n"
proof -
  assume x: "x \<le> of_int n"
  then have f: "\<lfloor>x\<rfloor> \<le> n" by (metis floor_mono floor_of_int)
  show ?thesis
  proof (cases "\<lfloor>x\<rfloor> = n")
    case True
    then have "x = of_int n" using x by (metis dual_order.antisym of_int_floor_le)
    then show ?thesis by simp
  next
    case False
    with f show ?thesis by (auto simp: round_half_even_def Let_def)
  qed
qed

text \<open>The exponent \<open>e\<close> with \<open>2 ^ e \<le> x < 2 ^ (e + 1)\<close>, from the bit lengths of the fraction.\<close>

definition binade :: "rat \<Rightarrow> int" where
  "binade x =
     (let (n, d) = quotient_of x; e = int (floorlog 2 (nat n)) - int (floorlog 2 (nat d))
      in if 2 powi e \<le> x then e else e - 1)"

definition round_pos :: "rat \<Rightarrow> float64" where
  "round_pos x =
     (let u = 2 powi (max (binade x - 52) (-1074));
          r = of_int (round_half_even (x / u)) * u
      in if 2 powi 1024 \<le> r then PosInf else Fin r)"

fun float_neg :: "float64 \<Rightarrow> float64" where
  "float_neg (Fin x) = Fin (- x)"
| "float_neg PosInf = NegInf"
| "float_neg NegInf = PosInf"
| "float_neg NaN = NaN"

definition float_of_rat :: "rat \<Rightarrow> float64" where
  "float_of_rat x =
     (if x = 0 then Fin 0 else if 0 < x then round_pos x else float_neg (round_pos (- x)))"

definition float_of_int :: "int \<Rightarrow> float64" where
  "float_of_int i = float_of_rat (of_int i)"

text \<open>The arithmetic the program and its SQL use, on finite operands with a nonzero divisor.\<close>

fun float_add :: "float64 \<Rightarrow> float64 \<Rightarrow> float64" where
  "float_add (Fin x) (Fin y) = float_of_rat (x + y)"
| "float_add NaN y = NaN"
| "float_add x NaN = NaN"
| "float_add PosInf NegInf = NaN"
| "float_add NegInf PosInf = NaN"
| "float_add PosInf y = PosInf"
| "float_add NegInf y = NegInf"
| "float_add x y = y"

fun float_sgn :: "float64 \<Rightarrow> int" where
  "float_sgn (Fin x) = (if x < 0 then -1 else if x = 0 then 0 else 1)"
| "float_sgn PosInf = 1"
| "float_sgn NegInf = -1"
| "float_sgn NaN = 0"

definition float_inf :: "int \<Rightarrow> float64" where
  "float_inf s = (if s = 0 then NaN else if 0 < s then PosInf else NegInf)"

fun float_mul :: "float64 \<Rightarrow> float64 \<Rightarrow> float64" where
  "float_mul (Fin x) (Fin y) = float_of_rat (x * y)"
| "float_mul NaN y = NaN"
| "float_mul x NaN = NaN"
| "float_mul x y = float_inf (float_sgn x * float_sgn y)"

fun float_div :: "float64 \<Rightarrow> float64 \<Rightarrow> float64" where
  "float_div (Fin x) (Fin y) =
     (if y = 0 then float_inf (float_sgn (Fin x)) else float_of_rat (x / y))"
| "float_div NaN y = NaN"
| "float_div x NaN = NaN"
| "float_div (Fin x) y = Fin 0"
| "float_div x (Fin y) = float_inf (float_sgn x * (if y < 0 then -1 else 1))"
| "float_div x y = NaN"

section \<open>Bounds of rounded results\<close>

lemma powi_nonpos_inverse:
  assumes "e \<le> 0"
  shows "1 / (2::rat) powi e = of_int (2 ^ nat (- e))"
proof -
  have "1 / (2::rat) powi e = 2 powi (- e)" by (simp add: power_int_minus_divide)
  also have "\<dots> = 2 ^ nat (- e)" using assms by (simp add: power_int_def)
  finally show ?thesis by simp
qed

lemma floorlog_pow_bounds:
  assumes "0 < n"
  shows "2 ^ (floorlog 2 n - 1) \<le> n" and "n < 2 ^ floorlog 2 n"
  using floorlog_bounds [OF assms, of 2] by auto

lemma binade_lower:
  assumes x: "0 < x"
  shows "2 powi (binade x) \<le> x"
proof -
  obtain n d where nd: "quotient_of x = (n, d)" by (cases "quotient_of x")
  then have d: "0 < d" by (rule quotient_of_denom_pos)
  have xq: "x = of_int n / of_int d" using nd by (rule quotient_of_div)
  with x d have n: "0 < n" by (simp add: zero_less_divide_iff)
  let ?bn = "floorlog 2 (nat n)" and ?bd = "floorlog 2 (nat d)"
  have bn: "0 < ?bn" using n by (simp add: floorlog_def)
  have "(2::rat) ^ (?bn - 1) \<le> of_nat (nat n)"
    using floorlog_pow_bounds(1) [of "nat n"] n by (metis of_nat_le_iff of_nat_numeral of_nat_power zero_less_nat_eq)
  then have ln: "(2::rat) ^ (?bn - 1) \<le> of_int n" using n by simp
  have "(of_nat (nat d) :: rat) \<le> 2 ^ ?bd"
    using floorlog_pow_bounds(2) [of "nat d"] d
    by (metis less_imp_le of_nat_le_iff of_nat_numeral of_nat_power zero_less_nat_eq)
  then have ud: "(of_int d :: rat) \<le> 2 ^ ?bd" using d by simp
  have "(2::rat) powi (int ?bn - int ?bd - 1) = 2 powi (int (?bn - 1) - int ?bd)"
    using bn by (simp add: of_nat_diff algebra_simps)
  also have "\<dots> = 2 ^ (?bn - 1) / 2 ^ ?bd"
    by (simp add: power_int_diff)
  also have "\<dots> \<le> of_int n / of_int d"
    using ln ud d n by (intro frac_le) auto
  finally have "(2::rat) powi (int ?bn - int ?bd - 1) \<le> x" using xq by simp
  then show ?thesis using nd by (simp add: binade_def Let_def)
qed

lemma binade_le_52:
  assumes "0 < x" and "x \<le> of_int m" and "m \<le> 2 ^ 52"
  shows "binade x \<le> 52"
proof (rule ccontr)
  assume "\<not> binade x \<le> 52"
  then have "(2::rat) powi 53 \<le> 2 powi (binade x)"
    by (intro power_int_increasing) auto
  also have "\<dots> \<le> of_int m" using binade_lower [OF assms(1)] assms(2) by linarith
  also have "(of_int m :: rat) \<le> of_int (2 ^ 52)" using assms(3) by (simp only: of_int_le_iff)
  finally show False by simp
qed

lemma round_pos_bounded:
  assumes x: "0 < x" and xm: "x \<le> of_int m" and m: "m \<le> 2 ^ 52"
  obtains y where "round_pos x = Fin y" and "0 \<le> y" and "y \<le> of_int m"
    and "x = of_int m \<Longrightarrow> y = of_int m"
proof -
  define e where "e = max (binade x - 52) (-1074)"
  define u :: rat where "u = 2 powi e"
  define k :: int where "k = 2 ^ nat (- e)"
  have e: "e \<le> 0" using binade_le_52 [OF x xm m] by (simp add: e_def)
  have u: "0 < u" by (simp add: u_def)
  have ku: "1 / u = of_int k" using powi_nonpos_inverse [OF e] by (simp add: u_def k_def)
  then have mk: "of_int m / u = of_int (m * k)" by (metis mult.right_neutral of_int_mult times_divide_eq_right)
  let ?r = "of_int (round_half_even (x / u)) * u"
  have "x / u \<le> of_int (m * k)" using xm u mk by (metis divide_right_mono less_imp_le)
  then have "round_half_even (x / u) \<le> m * k" by (rule round_half_even_le)
  then have "?r \<le> of_int (m * k) * u" using u by (metis mult_right_mono less_imp_le of_int_le_iff)
  also have "\<dots> = of_int m" using mk u by (metis divide_eq_eq less_irrefl)
  finally have rm: "?r \<le> of_int m" .
  have "0 \<le> round_half_even (x / u)" by (rule round_half_even_ge) (use x u in simp)
  then have r0: "0 \<le> ?r" using u by simp
  have "?r \<le> of_int (2 ^ 52)" using rm m by (meson of_int_le_iff order_trans)
  also have "(of_int (2 ^ 52) :: rat) < 2 powi 1024" by simp
  finally have "\<not> 2 powi 1024 \<le> ?r" by simp
  then have "round_pos x = Fin ?r" by (simp add: round_pos_def e_def u_def Let_def)
  moreover have "?r = of_int m" if "x = of_int m"
    using that mk u by (metis divide_eq_eq less_irrefl round_half_even_of_int)
  ultimately show ?thesis using that r0 rm by blast
qed

lemma float_of_int_exact:
  assumes "0 \<le> i" and "i \<le> 2 ^ 52"
  shows "float_of_int i = Fin (of_int i)"
proof (cases "i = 0")
  case False
  with assms have i: "(0::rat) < of_int i" by simp
  show ?thesis
    by (rule round_pos_bounded [OF i order_refl assms(2)]) (use i in \<open>simp add: float_of_int_def float_of_rat_def\<close>)
qed (simp add: float_of_int_def float_of_rat_def)

lemma float_of_rat_bounded:
  assumes "0 \<le> x" and "x \<le> of_int m" and "m \<le> 2 ^ 52"
  shows "Fin 0 \<le> float_of_rat x \<and> float_of_rat x \<le> Fin (of_int m)"
proof (cases "x = 0")
  case True
  with assms(2) show ?thesis by (simp add: float_of_rat_def)
next
  case False
  with assms(1) have "0 < x" by simp
  then show ?thesis
    by (rule round_pos_bounded [OF _ assms(2,3)]) (use \<open>0 < x\<close> in \<open>simp add: float_of_rat_def\<close>)
qed

text \<open>Rounding a normal number is off by at most half a unit in its last place.\<close>

lemma round_half_even_error: "\<bar>of_int (round_half_even x) - x\<bar> \<le> 1 / 2"
proof -
  have "of_int \<lfloor>x\<rfloor> \<le> x" "x < of_int \<lfloor>x\<rfloor> + 1" by linarith+
  then show ?thesis by (auto simp: round_half_even_def Let_def abs_le_iff)
qed

lemma float_of_rat_error:
  assumes "2 powi (-1022) \<le> x" and "x \<le> of_int m" and "m \<le> 2 ^ 52"
  obtains y where "float_of_rat x = Fin y" and "\<bar>y - x\<bar> \<le> x * 2 powi (-53)"
proof -
  have x: "0 < x" using assms(1) by (rule less_le_trans [rotated]) simp
  define e where "e = max (binade x - 52) (-1074)"
  define u :: rat where "u = 2 powi e"
  have u: "0 < u" by (simp add: u_def)
  have small: "u \<le> x * 2 powi (-52)"
  proof (cases "binade x - 52 \<le> -1074")
    case True
    then have "u = 2 powi (-1022) * 2 powi (-52)" by (simp add: u_def e_def max_def flip: power_int_add)
    with assms(1) show ?thesis by (simp add: mult_right_mono)
  next
    case False
    then have "u = 2 powi (binade x + (-52))" by (simp add: u_def e_def max_def)
    also have "\<dots> = 2 powi (binade x) * 2 powi (-52)" by (rule power_int_add) simp
    finally have "u = 2 powi (binade x) * 2 powi (-52)" .
    with binade_lower [OF x] show ?thesis by (simp add: mult_right_mono)
  qed
  let ?r = "of_int (round_half_even (x / u)) * u"
  obtain y where y: "round_pos x = Fin y" by (rule round_pos_bounded [OF x assms(2,3)])
  then have r: "y = ?r" by (auto simp: round_pos_def e_def u_def Let_def split: if_splits)
  have "?r - x = (of_int (round_half_even (x / u)) - x / u) * u" using u by (simp add: left_diff_distrib)
  then have "\<bar>?r - x\<bar> = \<bar>of_int (round_half_even (x / u)) - x / u\<bar> * u" using u by (simp add: abs_mult)
  also have "\<dots> \<le> 1 / 2 * u" using round_half_even_error [of "x / u"] u by (intro mult_right_mono) simp_all
  also have "\<dots> \<le> 1 / 2 * (x * 2 powi (-52))" using small by simp
  also have "\<dots> = x * 2 powi (-53)" by (simp add: power_int_def power_one_over)
  finally have "\<bar>y - x\<bar> \<le> x * 2 powi (-53)" using r by simp
  with y x that show ?thesis by (simp add: float_of_rat_def)
qed

end
