(* ===== verification/Go_Std.thy ===== *)
theory Go_Std
  imports Go_Float "HOL-Library.Word" "HOL-Library.Signed_Division"
begin

text \<open>
  What the program uses of Go's language and standard library: 64-bit integers, instants and
  durations, decimal printing and parsing (\<open>strconv\<close>), string cutting and trimming
  (\<open>strings\<close>), and the formatting verbs of \<open>fmt.Sprintf\<close> that it calls. Strings are byte
  strings, as in Go.
\<close>

section \<open>64-bit integers, instants and durations\<close>

text \<open>\<open>int64 x\<close> is the value Go's wrapping 64-bit arithmetic gives for the mathematical \<open>x\<close>.\<close>

definition int64 :: "int \<Rightarrow> int" where
  "int64 x = (x + 2 ^ 63) mod 2 ^ 64 - 2 ^ 63"

definition is_int64 :: "int \<Rightarrow> bool" where
  "is_int64 x \<longleftrightarrow> - (2 ^ 63) \<le> x \<and> x < 2 ^ 63"

lemma int64_range: "is_int64 (int64 x)"
proof -
  have "0 \<le> (x + 2 ^ 63) mod 2 ^ 64" "(x + 2 ^ 63) mod 2 ^ 64 < 2 ^ 64" by simp_all
  then show ?thesis by (simp add: is_int64_def int64_def)
qed

lemma int64_id: "is_int64 x \<Longrightarrow> int64 x = x"
  by (auto simp: is_int64_def int64_def)

lemma int64_word: "int64 x = sint (word_of_int x :: 64 word)"
  by (simp add: signed_of_int signed_take_bit_eq_take_bit_shift int64_def take_bit_eq_mod)

text \<open>Instants are nanoseconds since the epoch, durations are nanoseconds.\<close>

type_synonym time = int

definition Second :: int where "Second = 1000000000"
definition Millisecond :: int where "Millisecond = 1000000"
definition Hour :: int where "Hour = 3600 * Second"

definition Unix :: "time \<Rightarrow> int" where
  "Unix t = t div Second"

definition time_Unix :: "int \<Rightarrow> time" where
  "time_Unix s = s * Second"

lemma Unix_time_Unix [simp]: "Unix (time_Unix s) = s"
  by (simp add: Unix_def time_Unix_def Second_def)

lemma Unix_mono: "s \<le> t \<Longrightarrow> Unix s \<le> Unix t"
  by (simp add: Unix_def Second_def zdiv_mono1)

lemma time_Unix_trunc: "time_Unix (Unix t) \<le> t" "t < time_Unix (Unix t) + Second"
  unfolding time_Unix_def Unix_def Second_def by presburger+

definition duration_ms :: "int \<Rightarrow> int" where
  "duration_ms d = d sdiv Millisecond"

definition duration_seconds :: "int \<Rightarrow> float64" where
  "duration_seconds d =
     float_add (float_of_int (d sdiv Second))
       (float_div (float_of_int (d smod Second)) (Fin 1000000000))"

text \<open>Conversion of a float to an integer drops the fraction. Go leaves the result open when the value
  does not fit; the program converts no such value here.\<close>

definition float_trunc :: "float64 \<Rightarrow> int" where
  "float_trunc x = (case x of Fin q \<Rightarrow> if q < 0 then - \<lfloor>- q\<rfloor> else \<lfloor>q\<rfloor> | _ \<Rightarrow> 0)"

section \<open>Decimal numbers\<close>

definition digit_char :: "nat \<Rightarrow> char" where
  "digit_char d = char_of (48 + d)"

definition is_digit :: "char \<Rightarrow> bool" where
  "is_digit c \<longleftrightarrow> 48 \<le> (of_char c :: nat) \<and> (of_char c :: nat) \<le> 57"

definition digit_val :: "char \<Rightarrow> nat" where
  "digit_val c = of_char c - 48"

fun dec :: "nat \<Rightarrow> string" where
  "dec n = (if n < 10 then [digit_char n] else dec (n div 10) @ [digit_char (n mod 10)])"

declare dec.simps [simp del]

definition format_int :: "int \<Rightarrow> string" where
  "format_int i = (if i < 0 then ''-'' @ dec (nat (- i)) else dec (nat i))"

lemma digit_char_props:
  assumes "d < 10"
  shows "is_digit (digit_char d)" and "digit_val (digit_char d) = d"
  using assms by (simp_all add: is_digit_def digit_val_def digit_char_def)

lemma dec_nonempty [simp]: "dec n \<noteq> []"
  by (subst dec.simps) simp

lemma dec_digits: "c \<in> set (dec n) \<Longrightarrow> is_digit c"
proof (induction n arbitrary: c rule: dec.induct)
  case (1 n)
  show ?case
  proof (cases "n < 10")
    case True
    then show ?thesis using "1.prems" by (simp add: dec.simps [of n] digit_char_props)
  next
    case False
    then have "c \<in> set (dec (n div 10)) \<or> c = digit_char (n mod 10)"
      using "1.prems" by (subst (asm) dec.simps) auto
    then show ?thesis using "1.IH" False digit_char_props(1) [of "n mod 10"] by auto
  qed
qed

definition dec_value :: "string \<Rightarrow> nat" where
  "dec_value s = foldl (\<lambda>n c. 10 * n + digit_val c) 0 s"

lemma dec_value_dec: "dec_value (dec n) = n"
proof (induction n rule: dec.induct)
  case (1 n)
  show ?case
  proof (cases "n < 10")
    case True
    then show ?thesis by (simp add: dec.simps [of n] dec_value_def digit_char_props)
  next
    case False
    have "dec_value (dec n) = 10 * dec_value (dec (n div 10)) + n mod 10"
      using False by (subst dec.simps) (simp add: dec_value_def digit_char_props)
    with "1.IH" [OF False] show ?thesis by simp
  qed
qed

lemma dec_inj: "dec m = dec n \<Longrightarrow> m = n"
  by (metis dec_value_dec)

lemma dec_no_minus: "dec n \<noteq> CHR ''-'' # s"
  using dec_digits [of "CHR ''-''" n] by (auto simp: is_digit_def)

lemma format_int_inj: "format_int i = format_int j \<Longrightarrow> i = j"
  using dec_no_minus [of "nat i"] dec_no_minus [of "nat j"] dec_no_minus [of "nat i", THEN not_sym]
    dec_no_minus [of "nat j", THEN not_sym]
  by (auto simp: format_int_def dest!: dec_inj split: if_splits)

text \<open>\<open>strconv.ParseUint(s, 10, 64)\<close>: the loop stops at the first overflow, before it looks
  at the bytes after it.\<close>

datatype num_error = ErrSyntax | ErrRange

definition max_uint64 :: nat where "max_uint64 = 2 ^ 64 - 1"

fun parse_uint_loop :: "nat \<Rightarrow> string \<Rightarrow> num_error + nat" where
  "parse_uint_loop n [] = Inr n"
| "parse_uint_loop n (c # cs) =
     (if \<not> is_digit c then Inl ErrSyntax
      else if max_uint64 div 10 + 1 \<le> n then Inl ErrRange
      else if max_uint64 < 10 * n + digit_val c then Inl ErrRange
      else parse_uint_loop (10 * n + digit_val c) cs)"

text \<open>\<open>strconv.ParseInt(s, 10, 64)\<close> and \<open>strconv.Atoi\<close>: the value and the error Go returns.\<close>

definition strip_sign :: "string \<Rightarrow> bool \<times> string" where
  "strip_sign s =
     (case s of [] \<Rightarrow> (False, [])
      | c # cs \<Rightarrow> if c = CHR ''+'' then (False, cs) else if c = CHR ''-'' then (True, cs) else (False, s))"

definition ParseInt :: "string \<Rightarrow> int \<times> num_error option" where
  "ParseInt s =
     (case strip_sign s of (neg, ds) \<Rightarrow>
       if ds = [] then (0, Some ErrSyntax)
       else case parse_uint_loop 0 ds of
         Inl ErrSyntax \<Rightarrow> (0, Some ErrSyntax)
       | Inl ErrRange \<Rightarrow> (if neg then - (2 ^ 63) else 2 ^ 63 - 1, Some ErrRange)
       | Inr un \<Rightarrow>
           if \<not> neg \<and> 2 ^ 63 \<le> un then (2 ^ 63 - 1, Some ErrRange)
           else if neg \<and> 2 ^ 63 < un then (- (2 ^ 63), Some ErrRange)
           else (if neg then - int un else int un, None))"

definition Atoi :: "string \<Rightarrow> int \<times> num_error option" where
  "Atoi s = ParseInt s"

lemma dec_value_snoc: "dec_value (s @ [c]) = 10 * dec_value s + digit_val c"
  by (simp add: dec_value_def)

lemma foldl_dec_mono: "n \<le> foldl (\<lambda>n c. 10 * n + digit_val c) n s"
proof (induction s arbitrary: n)
  case (Cons c s)
  have "n \<le> 10 * n + digit_val c" by simp
  also have "\<dots> \<le> foldl (\<lambda>n c. 10 * n + digit_val c) (10 * n + digit_val c) s" by (rule Cons.IH)
  finally show ?case by simp
qed simp

lemma parse_uint_loop_ok:
  assumes "\<And>c. c \<in> set s \<Longrightarrow> is_digit c"
    and "foldl (\<lambda>n c. 10 * n + digit_val c) n s \<le> max_uint64"
  shows "parse_uint_loop n s = Inr (foldl (\<lambda>n c. 10 * n + digit_val c) n s)"
  using assms
proof (induction s arbitrary: n)
  case (Cons c s)
  have b: "10 * n + digit_val c \<le> max_uint64"
    using foldl_dec_mono [of "10 * n + digit_val c" s] Cons.prems(2) by simp
  then have "\<not> max_uint64 div 10 + 1 \<le> n" by (simp add: max_uint64_def)
  with b Cons show ?case by simp
qed simp

lemma strip_sign_dec: "strip_sign (dec n) = (False, dec n)"
proof (cases "dec n")
  case (Cons c cs)
  then have "is_digit c" using dec_digits [of c n] by simp
  then have "c \<noteq> CHR ''+''" "c \<noteq> CHR ''-''" by (auto simp: is_digit_def)
  with Cons show ?thesis by (simp add: strip_sign_def)
qed (simp add: strip_sign_def)

lemma parse_uint_dec: "n \<le> max_uint64 \<Longrightarrow> parse_uint_loop 0 (dec n) = Inr n"
  using parse_uint_loop_ok [of "dec n" 0] dec_digits dec_value_dec [of n]
  by (auto simp: dec_value_def)

lemma ParseInt_format_int:
  assumes "is_int64 i"
  shows "ParseInt (format_int i) = (i, None)"
proof (cases "i < 0")
  case True
  let ?n = "nat (- i)"
  have n: "?n \<le> 2 ^ 63" using assms by (auto simp: is_int64_def)
  then have "parse_uint_loop 0 (dec ?n) = Inr ?n" by (intro parse_uint_dec) (simp add: max_uint64_def)
  then show ?thesis using True n by (simp add: format_int_def ParseInt_def strip_sign_def)
next
  case False
  let ?n = "nat i"
  have n: "?n < 2 ^ 63" using assms False by (auto simp: is_int64_def nat_less_iff)
  then have "parse_uint_loop 0 (dec ?n) = Inr ?n" by (intro parse_uint_dec) (simp add: max_uint64_def)
  then show ?thesis using False n by (simp add: format_int_def ParseInt_def strip_sign_dec)
qed

lemma parse_uint_loop_bound: "n \<le> max_uint64 \<Longrightarrow> parse_uint_loop n s = Inr m \<Longrightarrow> m \<le> max_uint64"
  by (induction n s rule: parse_uint_loop.induct) (auto split: if_splits)

lemma ParseInt_range: "is_int64 (fst (ParseInt s))"
  by (auto simp: ParseInt_def is_int64_def split: prod.split sum.split num_error.split)

end
