(* ===== verification/Go_Strings.thy ===== *)
theory Go_Strings
  imports Go_Std
begin

text \<open>
  Byte-string operations of \<open>strings\<close>, \<open>unicode/utf8\<close>, \<open>strconv.Quote\<close> and the verbs of
  \<open>fmt\<close> that the program formats with.
\<close>

section \<open>Cutting, splitting and trimming\<close>

text \<open>\<open>strings.Cut\<close> and \<open>strings.Split\<close> for the one-byte separators the program uses.\<close>

definition Cut :: "string \<Rightarrow> char \<Rightarrow> string \<times> string \<times> bool" where
  "Cut s c =
     (if c \<in> set s then (takeWhile (\<lambda>x. x \<noteq> c) s, tl (dropWhile (\<lambda>x. x \<noteq> c) s), True)
      else (s, [], False))"

fun Split :: "string \<Rightarrow> char \<Rightarrow> string list" where
  "Split [] c = [[]]"
| "Split (x # xs) c =
     (if x = c then [] # Split xs c
      else case Split xs c of [] \<Rightarrow> [[x]] | y # ys \<Rightarrow> (x # y) # ys)"

text \<open>The UTF-8 encodings of the code points with Unicode's White Space property, which
  \<open>strings.TrimSpace\<close> removes at both ends.\<close>

definition white_space :: "string list" where
  "white_space =
     map (map char_of)
       ([[9], [10], [11], [12], [13], [32], [194, 133], [194, 160], [225, 154, 128],
         [226, 128, 168], [226, 128, 169], [226, 128, 175], [226, 129, 159], [227, 128, 128]]
        @ map (\<lambda>n. [226, 128, n]) [128 ..< 139] :: nat list list)"

definition drop_space :: "string \<Rightarrow> string option" where
  "drop_space s = map_option (\<lambda>w. drop (length w) s) (find (\<lambda>w. prefix w s) white_space)"

lemma white_space_nonempty: "w \<in> set white_space \<Longrightarrow> w \<noteq> []"
  by (auto simp: white_space_def)

lemma drop_space_shorter: "drop_space s = Some s' \<Longrightarrow> length s' < length s"
  by (auto simp: drop_space_def find_Some_iff prefix_def dest!: nth_mem
      dest: white_space_nonempty)

function trim_left :: "string \<Rightarrow> string" where
  "trim_left s = (case drop_space s of None \<Rightarrow> s | Some s' \<Rightarrow> trim_left s')"
  by pat_completeness auto
termination
  by (relation "measure length") (auto intro: drop_space_shorter)

declare trim_left.simps [simp del]

definition drop_space_end :: "string \<Rightarrow> string option" where
  "drop_space_end s =
     map_option (\<lambda>w. take (length s - length w) s) (find (\<lambda>w. suffix w s) white_space)"

lemma drop_space_end_shorter: "drop_space_end s = Some s' \<Longrightarrow> length s' < length s"
  by (auto simp: drop_space_end_def find_Some_iff suffix_def dest!: nth_mem
      dest: white_space_nonempty)

function trim_right :: "string \<Rightarrow> string" where
  "trim_right s = (case drop_space_end s of None \<Rightarrow> s | Some s' \<Rightarrow> trim_right s')"
  by pat_completeness auto
termination
  by (relation "measure length") (auto intro: drop_space_end_shorter)

declare trim_right.simps [simp del]

definition TrimSpace :: "string \<Rightarrow> string" where
  "TrimSpace s = trim_right (trim_left s)"

definition to_lower_ascii :: "char \<Rightarrow> char" where
  "to_lower_ascii c =
     (if 65 \<le> (of_char c :: nat) \<and> (of_char c :: nat) \<le> 90 then char_of (of_char c + 32 :: nat) else c)"

section \<open>Quoting\<close>

text \<open>\<open>utf8.DecodeRuneInString\<close> on a nonempty string: the code point and its width, or
  \<open>None\<close> for an invalid encoding, which consumes one byte.\<close>

definition cont_byte :: "nat \<Rightarrow> bool" where
  "cont_byte b \<longleftrightarrow> 128 \<le> b \<and> b \<le> 191"

definition decode_rune :: "nat list \<Rightarrow> (nat \<times> nat) option" where
  "decode_rune bs =
     (case bs of
        [] \<Rightarrow> None
      | a # r \<Rightarrow>
          if a < 128 then Some (a, 1)
          else if 194 \<le> a \<and> a \<le> 223 then
            (case r of b # _ \<Rightarrow>
               if cont_byte b then Some ((a - 192) * 64 + (b - 128), 2) else None | _ \<Rightarrow> None)
          else if 224 \<le> a \<and> a \<le> 239 then
            (case r of b # c # _ \<Rightarrow>
               if cont_byte b \<and> cont_byte c \<and> (a = 224 \<longrightarrow> 160 \<le> b) \<and> (a = 237 \<longrightarrow> b \<le> 159)
               then Some ((a - 224) * 4096 + (b - 128) * 64 + (c - 128), 3) else None | _ \<Rightarrow> None)
          else if 240 \<le> a \<and> a \<le> 244 then
            (case r of b # c # d # _ \<Rightarrow>
               if cont_byte b \<and> cont_byte c \<and> cont_byte d \<and> (a = 240 \<longrightarrow> 144 \<le> b) \<and> (a = 244 \<longrightarrow> b \<le> 143)
               then Some ((a - 240) * 262144 + (b - 128) * 4096 + (c - 128) * 64 + (d - 128), 4)
               else None | _ \<Rightarrow> None)
          else None)"

definition hex_digit :: "nat \<Rightarrow> char" where
  "hex_digit n = (if n < 10 then char_of (48 + n) else char_of (87 + n))"

fun hex_digits :: "nat \<Rightarrow> nat \<Rightarrow> string" where
  "hex_digits 0 n = []"
| "hex_digits (Suc k) n = hex_digits k (n div 16) @ [hex_digit (n mod 16)]"

text \<open>How \<open>strconv.Quote\<close> writes one code point; \<open>printable\<close> is Unicode's table of printable
  code points beyond ASCII.\<close>

definition quote_rune :: "(nat \<Rightarrow> bool) \<Rightarrow> nat \<Rightarrow> nat list \<Rightarrow> string" where
  "quote_rune printable r bytes =
     (if r = 34 \<or> r = 92 then [char_of (92 :: nat), char_of r]
      else if (32 \<le> r \<and> r < 127) \<or> (128 \<le> r \<and> printable r) then map char_of bytes
      else if r = 7 then char_of (92 :: nat) # ''a''
      else if r = 8 then char_of (92 :: nat) # ''b''
      else if r = 12 then char_of (92 :: nat) # ''f''
      else if r = 10 then char_of (92 :: nat) # ''n''
      else if r = 13 then char_of (92 :: nat) # ''r''
      else if r = 9 then char_of (92 :: nat) # ''t''
      else if r = 11 then char_of (92 :: nat) # ''v''
      else if r < 32 \<or> r = 127 then char_of (92 :: nat) # ''x'' @ hex_digits 2 r
      else if r < 65536 then char_of (92 :: nat) # ''u'' @ hex_digits 4 r
      else char_of (92 :: nat) # ''U'' @ hex_digits 8 r)"

lemma decode_rune_width: "decode_rune bs = Some (r, w) \<Longrightarrow> 0 < w \<and> bs \<noteq> []"
  by (auto simp: decode_rune_def split: list.splits if_splits)

function quote_bytes :: "(nat \<Rightarrow> bool) \<Rightarrow> nat list \<Rightarrow> string" where
  "quote_bytes printable bs =
     (case bs of
        [] \<Rightarrow> []
      | b # rest \<Rightarrow>
          (case decode_rune bs of
             None \<Rightarrow> (char_of (92 :: nat) # ''x'' @ hex_digits 2 b) @ quote_bytes printable rest
           | Some (r, w) \<Rightarrow> quote_rune printable r (take w bs) @ quote_bytes printable (drop w bs)))"
  by pat_completeness auto
termination
  by (relation "measure (length \<circ> snd)") (auto dest: decode_rune_width)

declare quote_bytes.simps [simp del]

definition Quote :: "(nat \<Rightarrow> bool) \<Rightarrow> string \<Rightarrow> string" where
  "Quote printable s = char_of (34 :: nat) # quote_bytes printable (map of_char s) @ [char_of (34 :: nat)]"

section \<open>Fixed-point formatting\<close>

text \<open>\<open>%.<p>f\<close>: the exact value rounded half to even to \<open>p\<close> decimals.\<close>

definition pad_zeros :: "nat \<Rightarrow> string \<Rightarrow> string" where
  "pad_zeros w s = replicate (w - length s) (CHR ''0'') @ s"

definition fixed_digits :: "nat \<Rightarrow> nat \<Rightarrow> string" where
  "fixed_digits p n =
     (if p = 0 then dec n else dec (n div 10 ^ p) @ ''.'' @ pad_zeros p (dec (n mod 10 ^ p)))"

fun format_fixed :: "nat \<Rightarrow> float64 \<Rightarrow> string" where
  "format_fixed p (Fin x) =
     (if x < 0 then ''-'' else []) @ fixed_digits p (nat (round_half_even (\<bar>x\<bar> * 10 ^ p)))"
| "format_fixed p PosInf = ''+Inf''"
| "format_fixed p NegInf = ''-Inf''"
| "format_fixed p NaN = ''NaN''"

section \<open>Facts\<close>

lemma Cut_append:
  "c \<notin> set k \<Longrightarrow> Cut (k @ c # v) c = (k, v, True)"
  by (auto simp: Cut_def takeWhile_append dropWhile_append)

lemma Cut_parts: "Cut s c = (k, v, True) \<Longrightarrow> s = k @ c # v \<and> c \<notin> set k"
proof -
  assume "Cut s c = (k, v, True)"
  then have c: "c \<in> set s" and k: "k = takeWhile (\<lambda>x. x \<noteq> c) s" and v: "v = tl (dropWhile (\<lambda>x. x \<noteq> c) s)"
    by (auto simp: Cut_def split: if_splits)
  from c have ne: "dropWhile (\<lambda>x. x \<noteq> c) s \<noteq> []" by (simp add: dropWhile_eq_Nil_conv)
  then have "hd (dropWhile (\<lambda>x. x \<noteq> c) s) = c" using hd_dropWhile [OF ne] by simp
  then have "dropWhile (\<lambda>x. x \<noteq> c) s = c # v" using ne v by (metis list.collapse)
  then have "s = k @ c # v" using k by (metis takeWhile_dropWhile_id)
  moreover have "c \<notin> set k" using k by (auto dest: set_takeWhileD)
  ultimately show ?thesis by simp
qed

lemma Split_nonempty [simp]: "Split s c \<noteq> []"
  by (cases s) (auto split: list.split)

lemma trim_left_fixed: "drop_space (trim_left s) = None"
  by (induction s rule: trim_left.induct) (subst trim_left.simps, auto split: option.split)

lemma trim_right_fixed: "drop_space_end (trim_right s) = None"
  by (induction s rule: trim_right.induct) (subst trim_right.simps, auto split: option.split)

end
