(* ===== verification/Storage.thy ===== *)
theory Storage
  imports Go_Strings
begin

text \<open>
  \<open>internal/storage\<close>: the schema and the SQL statements of the SQLite database. A table is the
  list of its rows in rowid order with the AUTOINCREMENT counter beside it; every statement of
  \<open>sqlite.go\<close> is a function on the tables. The database engine itself is not part of the
  repository: what it may do is left open in the \<open>verdicts\<close> of the world, one per call, which
  either refuse the call or serve it (with any reading order, and possibly breaking off a
  result set after some rows).
\<close>

section \<open>Schema\<close>

record alerts_row =
  ar_id :: int
  ar_kind :: string
  ar_message :: string
  ar_value :: float64
  ar_threshold :: float64
  ar_fired_at :: int
  ar_resolved_at :: "int option"
  ar_acknowledged :: int

record url_checks_row =
  ur_id :: int
  ur_url :: string
  ur_label :: string
  ur_interval_seconds :: int
  ur_timeout_seconds :: int
  ur_enabled :: int
  ur_created_at :: int

record url_results_row =
  rr_id :: int
  rr_check_id :: int
  rr_checked_at :: int
  rr_up :: int
  rr_status_code :: "int option"
  rr_latency_ms :: "int option"
  rr_error :: "string option"

record ssh_row =
  sr_id :: int
  sr_occurred_at :: int
  sr_event_type :: string
  sr_username :: "string option"
  sr_source_ip :: string
  sr_port :: "string option"

record tunnel_row =
  tr_id :: int
  tr_occurred_at :: int
  tr_event_type :: string
  tr_detail :: "string option"

record db =
  alerts_tbl :: "alerts_row list"
  alerts_seq :: int
  checks_tbl :: "url_checks_row list"
  checks_seq :: int
  results_tbl :: "url_results_row list"
  results_seq :: int
  ssh_tbl :: "ssh_row list"
  ssh_seq :: int
  tunnel_tbl :: "tunnel_row list"
  tunnel_seq :: int
  thresholds_tbl :: "(string \<times> float64) list"

definition empty_db :: db where
  "empty_db = \<lparr>alerts_tbl = [], alerts_seq = 0, checks_tbl = [], checks_seq = 0,
     results_tbl = [], results_seq = 0, ssh_tbl = [], ssh_seq = 0,
     tunnel_tbl = [], tunnel_seq = 0, thresholds_tbl = []\<rparr>"

text \<open>\<open>INSERT OR IGNORE INTO thresholds\<close> of the schema.\<close>

definition default_thresholds :: "(string \<times> float64) list" where
  "default_thresholds =
     [(''cpu_pct'', Fin 90), (''ram_pct'', Fin 85), (''disk_pct'', Fin 90), (''swap_pct'', Fin 80),
      (''url_latency_ms'', Fin 5000)]"

definition insert_or_ignore :: "string \<times> float64 \<Rightarrow> (string \<times> float64) list \<Rightarrow> (string \<times> float64) list" where
  "insert_or_ignore kv t = (if fst kv \<in> fst ` set t then t else t @ [kv])"

definition seed_thresholds :: "(string \<times> float64) list \<Rightarrow> (string \<times> float64) list" where
  "seed_thresholds t = fold insert_or_ignore default_thresholds t"

section \<open>The Go structs of the layer\<close>

record Alert =
  alID :: int
  alKind :: string
  alMessage :: string
  alValue :: float64
  alThreshold :: float64
  alFiredAt :: time
  alResolvedAt :: "time option"
  alAcknowledged :: bool

record URLCheck =
  ucID :: int
  ucURL :: string
  ucLabel :: string
  ucIntervalSeconds :: int
  ucTimeoutSeconds :: int
  ucEnabled :: bool
  ucCreatedAt :: time

record URLResult =
  urID :: int
  urCheckID :: int
  urCheckedAt :: time
  urUp :: bool
  urStatusCode :: "int option"
  urLatencyMS :: "int option"
  urError :: "string option"

record SSHEvent =
  seID :: int
  seOccurredAt :: time
  seEventType :: string
  seUsername :: "string option"
  seSourceIP :: string
  sePort :: "string option"

record TunnelEvent =
  teID :: int
  teOccurredAt :: time
  teEventType :: string
  teDetail :: "string option"

record IPCount =
  icIP :: string
  icCount :: int

section \<open>The world: tables, engine verdicts, clock\<close>

datatype db_error =
  Driver string
| UniqueViolation
| NotNullViolation
| ForeignKeyViolation
| NoRows
| Wrapped string db_error

datatype verdict =
  Refuse string
| Serve "nat \<Rightarrow> int" "(nat \<times> string) option"

record world =
  wdb :: db
  verdicts :: "nat \<Rightarrow> verdict"
  clock :: "nat \<Rightarrow> time"
  printable :: "nat \<Rightarrow> bool"

definition time_Now :: "world \<Rightarrow> time \<times> world" where
  "time_Now w = (stream_head (clock w), w\<lparr>clock := stream_tail (clock w)\<rparr>)"

definition exec :: "(db \<Rightarrow> db_error + 'a \<times> db) \<Rightarrow> world \<Rightarrow> (db_error + 'a) \<times> world" where
  "exec stmt w =
     (let w' = w\<lparr>verdicts := stream_tail (verdicts w)\<rparr>
      in case stream_head (verdicts w) of
           Refuse e \<Rightarrow> (Inl (Driver e), w')
         | Serve rank brk \<Rightarrow>
             (case stmt (wdb w) of
                Inl e \<Rightarrow> (Inl e, w')
              | Inr (r, d) \<Rightarrow> (Inr r, w'\<lparr>wdb := d\<rparr>)))"

text \<open>\<open>rows.Next\<close> until it is false, \<open>rows.Scan\<close> of each row, then \<open>rows.Err\<close>: a result set that
  breaks off leaves the rows read so far beside the error.\<close>

definition query :: "((nat \<Rightarrow> int) \<Rightarrow> db \<Rightarrow> 'r list) \<Rightarrow> ('r \<Rightarrow> 'a) \<Rightarrow> world
    \<Rightarrow> ('a list \<times> db_error option) \<times> world" where
  "query sel scan w =
     (let w' = w\<lparr>verdicts := stream_tail (verdicts w)\<rparr>
      in case stream_head (verdicts w) of
           Refuse e \<Rightarrow> (([], Some (Driver e)), w')
         | Serve rank brk \<Rightarrow>
             (case brk of
                None \<Rightarrow> ((map scan (sel rank (wdb w)), None), w')
              | Some (k, e) \<Rightarrow> ((map scan (take k (sel rank (wdb w))), Some (Driver e)), w')))"

text \<open>\<open>QueryRow(..).Scan\<close>: the first row, or \<open>sql.ErrNoRows\<close>.\<close>

definition query_row :: "((nat \<Rightarrow> int) \<Rightarrow> db \<Rightarrow> 'r list) \<Rightarrow> ('r \<Rightarrow> 'a) \<Rightarrow> world \<Rightarrow> (db_error + 'a) \<times> world" where
  "query_row sel scan w =
     (case query sel scan w of
        (([], None), w') \<Rightarrow> (Inl NoRows, w')
      | (([], Some e), w') \<Rightarrow> (Inl e, w')
      | ((r # rs, _), w') \<Rightarrow> (Inr r, w'))"

definition int_of_bool :: "bool \<Rightarrow> int" where
  "int_of_bool b = (if b then 1 else 0)"

section \<open>Opening and purging\<close>

definition migrate :: "world \<Rightarrow> (db_error + unit) \<times> world" where
  "migrate = exec (\<lambda>d. Inr ((), d\<lparr>thresholds_tbl := seed_thresholds (thresholds_tbl d)\<rparr>))"

definition dsn :: "string \<Rightarrow> string" where
  "dsn path = ''file:'' @ path @
     ''?_pragma=journal_mode=WAL&_pragma=foreign_keys=ON&_pragma=busy_timeout=5000''"

text \<open>The driver's verdict on \<open>sql.Open(dsn)\<close>, then the migration; a failure closes the handle.\<close>

definition storage_Open :: "string \<Rightarrow> world \<Rightarrow> (db_error + unit) \<times> world" where
  "storage_Open path w =
     (case exec (\<lambda>d. Inr (dsn path, d)) w of
        (Inl e, w1) \<Rightarrow> (Inl (Wrapped ''open sqlite'' e), w1)
      | (Inr _, w1) \<Rightarrow>
          (case migrate w1 of
             (Inl e, w2) \<Rightarrow> (Inl (Wrapped ''migrate'' e), w2)
           | (Inr _, w2) \<Rightarrow> (Inr (), w2)))"

definition purge_results :: "int \<Rightarrow> db \<Rightarrow> db_error + unit \<times> db" where
  "purge_results before d = Inr ((), d\<lparr>results_tbl := filter (\<lambda>r. \<not> rr_checked_at r < before) (results_tbl d)\<rparr>)"

definition purge_ssh :: "int \<Rightarrow> db \<Rightarrow> db_error + unit \<times> db" where
  "purge_ssh before d = Inr ((), d\<lparr>ssh_tbl := filter (\<lambda>r. \<not> sr_occurred_at r < before) (ssh_tbl d)\<rparr>)"

definition purge_tunnel :: "int \<Rightarrow> db \<Rightarrow> db_error + unit \<times> db" where
  "purge_tunnel before d = Inr ((), d\<lparr>tunnel_tbl := filter (\<lambda>r. \<not> tr_occurred_at r < before) (tunnel_tbl d)\<rparr>)"

definition purge_alerts :: "int \<Rightarrow> db \<Rightarrow> db_error + unit \<times> db" where
  "purge_alerts before d =
     Inr ((), d\<lparr>alerts_tbl :=
       filter (\<lambda>r. \<not> (case ar_resolved_at r of None \<Rightarrow> False | Some t \<Rightarrow> t < before)) (alerts_tbl d)\<rparr>)"

fun exec_all :: "(db \<Rightarrow> db_error + unit \<times> db) list \<Rightarrow> world \<Rightarrow> (db_error + unit) \<times> world" where
  "exec_all [] w = (Inr (), w)"
| "exec_all (s # ss) w =
     (case exec s w of (Inl e, w') \<Rightarrow> (Inl e, w') | (Inr _, w') \<Rightarrow> exec_all ss w')"

definition purge_stmts :: "int \<Rightarrow> (db \<Rightarrow> db_error + unit \<times> db) list" where
  "purge_stmts now =
     [purge_results (now - 7 * 86400), purge_ssh (now - 30 * 86400),
      purge_tunnel (now - 30 * 86400), purge_alerts (now - 14 * 86400)]"

definition Purge :: "world \<Rightarrow> (db_error + unit) \<times> world" where
  "Purge w = (case time_Now w of (t, w1) \<Rightarrow> exec_all (purge_stmts (Unix t)) w1)"

section \<open>Alerts\<close>

definition sql_insert_alert :: "Alert \<Rightarrow> db \<Rightarrow> db_error + int \<times> db" where
  "sql_insert_alert a d =
     (if alValue a = NaN \<or> alThreshold a = NaN then Inl NotNullViolation
      else let i = alerts_seq d + 1
        in Inr (i, d\<lparr>alerts_seq := i,
             alerts_tbl := alerts_tbl d @
               [\<lparr>ar_id = i, ar_kind = alKind a, ar_message = alMessage a, ar_value = alValue a,
                 ar_threshold = alThreshold a, ar_fired_at = Unix (alFiredAt a),
                 ar_resolved_at = None, ar_acknowledged = 0\<rparr>]\<rparr>))"

definition InsertAlert :: "Alert \<Rightarrow> world \<Rightarrow> (db_error + int) \<times> world" where
  "InsertAlert a = exec (sql_insert_alert a)"

definition sql_resolve_alert :: "int \<Rightarrow> int \<Rightarrow> db \<Rightarrow> db_error + unit \<times> db" where
  "sql_resolve_alert i t d =
     Inr ((), d\<lparr>alerts_tbl :=
       map (\<lambda>r. if ar_id r = i then r\<lparr>ar_resolved_at := Some t\<rparr> else r) (alerts_tbl d)\<rparr>)"

definition ResolveAlert :: "int \<Rightarrow> time \<Rightarrow> world \<Rightarrow> (db_error + unit) \<times> world" where
  "ResolveAlert i t = exec (sql_resolve_alert i (Unix t))"

definition sql_acknowledge_alert :: "int \<Rightarrow> db \<Rightarrow> db_error + unit \<times> db" where
  "sql_acknowledge_alert i d =
     Inr ((), d\<lparr>alerts_tbl :=
       map (\<lambda>r. if ar_id r = i then r\<lparr>ar_acknowledged := 1\<rparr> else r) (alerts_tbl d)\<rparr>)"

definition AcknowledgeAlert :: "int \<Rightarrow> world \<Rightarrow> (db_error + unit) \<times> world" where
  "AcknowledgeAlert i = exec (sql_acknowledge_alert i)"

text \<open>The columns the two queries select: \<open>resolved_at\<close> is not among them, so the field of the
  struct keeps its zero value.\<close>

definition scan_alert :: "alerts_row \<Rightarrow> Alert" where
  "scan_alert r =
     \<lparr>alID = ar_id r, alKind = ar_kind r, alMessage = ar_message r, alValue = ar_value r,
      alThreshold = ar_threshold r, alFiredAt = time_Unix (ar_fired_at r), alResolvedAt = None,
      alAcknowledged = (ar_acknowledged r = 1)\<rparr>"

definition sql_active_alerts :: "(nat \<Rightarrow> int) \<Rightarrow> db \<Rightarrow> alerts_row list" where
  "sql_active_alerts rank d =
     order_by (\<lambda>r. - ar_fired_at r) rank (filter (\<lambda>r. ar_resolved_at r = None) (alerts_tbl d))"

definition ActiveAlerts :: "world \<Rightarrow> (Alert list \<times> db_error option) \<times> world" where
  "ActiveAlerts = query sql_active_alerts scan_alert"

definition sql_recent_alerts :: "int \<Rightarrow> (nat \<Rightarrow> int) \<Rightarrow> db \<Rightarrow> alerts_row list" where
  "sql_recent_alerts n rank d = limit_rows n (order_by (\<lambda>r. - ar_fired_at r) rank (alerts_tbl d))"

definition RecentAlerts :: "int \<Rightarrow> world \<Rightarrow> (Alert list \<times> db_error option) \<times> world" where
  "RecentAlerts n = query (sql_recent_alerts n) scan_alert"

section \<open>URL checks\<close>

definition sql_insert_check :: "URLCheck \<Rightarrow> db \<Rightarrow> db_error + int \<times> db" where
  "sql_insert_check u d =
     (if ucURL u \<in> ur_url ` set (checks_tbl d) then Inl UniqueViolation
      else let i = checks_seq d + 1
        in Inr (i, d\<lparr>checks_seq := i,
             checks_tbl := checks_tbl d @
               [\<lparr>ur_id = i, ur_url = ucURL u, ur_label = ucLabel u,
                 ur_interval_seconds = ucIntervalSeconds u, ur_timeout_seconds = ucTimeoutSeconds u,
                 ur_enabled = int_of_bool (ucEnabled u), ur_created_at = Unix (ucCreatedAt u)\<rparr>]\<rparr>))"

definition InsertURLCheck :: "URLCheck \<Rightarrow> world \<Rightarrow> (db_error + int) \<times> world" where
  "InsertURLCheck u = exec (sql_insert_check u)"

definition set_check_row :: "URLCheck \<Rightarrow> url_checks_row \<Rightarrow> url_checks_row" where
  "set_check_row u r =
     r\<lparr>ur_url := ucURL u, ur_label := ucLabel u, ur_interval_seconds := ucIntervalSeconds u,
       ur_timeout_seconds := ucTimeoutSeconds u, ur_enabled := int_of_bool (ucEnabled u)\<rparr>"

definition sql_update_check :: "URLCheck \<Rightarrow> db \<Rightarrow> db_error + unit \<times> db" where
  "sql_update_check u d =
     (if ucID u \<in> ur_id ` set (checks_tbl d) \<and>
         (\<exists>r \<in> set (checks_tbl d). ur_id r \<noteq> ucID u \<and> ur_url r = ucURL u)
      then Inl UniqueViolation
      else Inr ((), d\<lparr>checks_tbl :=
             map (\<lambda>r. if ur_id r = ucID u then set_check_row u r else r) (checks_tbl d)\<rparr>))"

definition UpdateURLCheck :: "URLCheck \<Rightarrow> world \<Rightarrow> (db_error + unit) \<times> world" where
  "UpdateURLCheck u = exec (sql_update_check u)"

text \<open>Deleting a check deletes its results: \<open>ON DELETE CASCADE\<close>, with \<open>foreign_keys=ON\<close>.\<close>

definition sql_delete_check :: "int \<Rightarrow> db \<Rightarrow> db_error + unit \<times> db" where
  "sql_delete_check i d =
     Inr ((), d\<lparr>checks_tbl := filter (\<lambda>r. ur_id r \<noteq> i) (checks_tbl d),
       results_tbl := filter (\<lambda>r. rr_check_id r \<noteq> i) (results_tbl d)\<rparr>)"

definition DeleteURLCheck :: "int \<Rightarrow> world \<Rightarrow> (db_error + unit) \<times> world" where
  "DeleteURLCheck i = exec (sql_delete_check i)"

definition scan_check :: "url_checks_row \<Rightarrow> URLCheck" where
  "scan_check r =
     \<lparr>ucID = ur_id r, ucURL = ur_url r, ucLabel = ur_label r,
      ucIntervalSeconds = ur_interval_seconds r, ucTimeoutSeconds = ur_timeout_seconds r,
      ucEnabled = (ur_enabled r = 1), ucCreatedAt = time_Unix (ur_created_at r)\<rparr>"

definition sql_list_checks :: "(nat \<Rightarrow> int) \<Rightarrow> db \<Rightarrow> url_checks_row list" where
  "sql_list_checks rank d = order_by ur_created_at rank (checks_tbl d)"

definition ListURLChecks :: "world \<Rightarrow> (URLCheck list \<times> db_error option) \<times> world" where
  "ListURLChecks = query sql_list_checks scan_check"

definition sql_get_check :: "int \<Rightarrow> (nat \<Rightarrow> int) \<Rightarrow> db \<Rightarrow> url_checks_row list" where
  "sql_get_check i rank d = visit rank (filter (\<lambda>r. ur_id r = i) (checks_tbl d))"

definition GetURLCheck :: "int \<Rightarrow> world \<Rightarrow> (db_error + URLCheck) \<times> world" where
  "GetURLCheck i = query_row (sql_get_check i) scan_check"

definition sql_insert_result :: "URLResult \<Rightarrow> db \<Rightarrow> db_error + unit \<times> db" where
  "sql_insert_result r d =
     (if urCheckID r \<notin> ur_id ` set (checks_tbl d) then Inl ForeignKeyViolation
      else let i = results_seq d + 1
        in Inr ((), d\<lparr>results_seq := i,
             results_tbl := results_tbl d @
               [\<lparr>rr_id = i, rr_check_id = urCheckID r, rr_checked_at = Unix (urCheckedAt r),
                 rr_up = int_of_bool (urUp r), rr_status_code = urStatusCode r,
                 rr_latency_ms = urLatencyMS r, rr_error = urError r\<rparr>]\<rparr>))"

definition InsertURLResult :: "URLResult \<Rightarrow> world \<Rightarrow> (db_error + unit) \<times> world" where
  "InsertURLResult r = exec (sql_insert_result r)"

definition scan_result :: "url_results_row \<Rightarrow> URLResult" where
  "scan_result r =
     \<lparr>urID = rr_id r, urCheckID = rr_check_id r, urCheckedAt = time_Unix (rr_checked_at r),
      urUp = (rr_up r = 1), urStatusCode = rr_status_code r, urLatencyMS = rr_latency_ms r,
      urError = rr_error r\<rparr>"

definition sql_history :: "int \<Rightarrow> int \<Rightarrow> (nat \<Rightarrow> int) \<Rightarrow> db \<Rightarrow> url_results_row list" where
  "sql_history i n rank d =
     limit_rows n (order_by (\<lambda>r. - rr_checked_at r) rank
       (filter (\<lambda>r. rr_check_id r = i) (results_tbl d)))"

definition URLResultHistory :: "int \<Rightarrow> int \<Rightarrow> world \<Rightarrow> (URLResult list \<times> db_error option) \<times> world" where
  "URLResultHistory i n = query (sql_history i n) scan_result"

text \<open>\<open>CAST(SUM(up) AS REAL) * 100.0 / COUNT(*)\<close>, NULL (which scans as 0) without rows.\<close>

definition uptime_rows :: "int \<Rightarrow> int \<Rightarrow> db \<Rightarrow> url_results_row list" where
  "uptime_rows i since d = filter (\<lambda>r. rr_check_id r = i \<and> since \<le> rr_checked_at r) (results_tbl d)"

definition sql_uptime :: "url_results_row list \<Rightarrow> float64" where
  "sql_uptime rs =
     (if rs = [] then Fin 0
      else float_div (float_mul (float_of_int (sum_list (map rr_up rs))) (Fin 100))
             (float_of_int (int (length rs))))"

definition URLUptime :: "int \<Rightarrow> time \<Rightarrow> world \<Rightarrow> (db_error + float64) \<times> world" where
  "URLUptime i since = query_row (\<lambda>rank d. [uptime_rows i (Unix since) d]) sql_uptime"

section \<open>SSH events\<close>

definition sql_insert_ssh :: "SSHEvent \<Rightarrow> db \<Rightarrow> db_error + unit \<times> db" where
  "sql_insert_ssh e d =
     (let i = ssh_seq d + 1
      in Inr ((), d\<lparr>ssh_seq := i,
           ssh_tbl := ssh_tbl d @
             [\<lparr>sr_id = i, sr_occurred_at = Unix (seOccurredAt e), sr_event_type = seEventType e,
               sr_username = seUsername e, sr_source_ip = seSourceIP e, sr_port = sePort e\<rparr>]\<rparr>))"

definition InsertSSHEvent :: "SSHEvent \<Rightarrow> world \<Rightarrow> (db_error + unit) \<times> world" where
  "InsertSSHEvent e = exec (sql_insert_ssh e)"

definition scan_ssh :: "ssh_row \<Rightarrow> SSHEvent" where
  "scan_ssh r =
     \<lparr>seID = sr_id r, seOccurredAt = time_Unix (sr_occurred_at r), seEventType = sr_event_type r,
      seUsername = sr_username r, seSourceIP = sr_source_ip r, sePort = sr_port r\<rparr>"

definition sql_recent_ssh :: "int \<Rightarrow> (nat \<Rightarrow> int) \<Rightarrow> db \<Rightarrow> ssh_row list" where
  "sql_recent_ssh n rank d = limit_rows n (order_by (\<lambda>r. - sr_occurred_at r) rank (ssh_tbl d))"

definition RecentSSHEvents :: "int \<Rightarrow> world \<Rightarrow> (SSHEvent list \<times> db_error option) \<times> world" where
  "RecentSSHEvents n = query (sql_recent_ssh n) scan_ssh"

text \<open>\<open>GROUP BY source_ip ORDER BY COUNT(*) DESC LIMIT 20\<close> over the failed logins.\<close>

definition failed_since :: "int \<Rightarrow> db \<Rightarrow> ssh_row list" where
  "failed_since since d =
     filter (\<lambda>r. sr_event_type r = ''failed'' \<and> since \<le> sr_occurred_at r) (ssh_tbl d)"

definition ip_groups :: "ssh_row list \<Rightarrow> (string \<times> int) list" where
  "ip_groups rs =
     map (\<lambda>ip. (ip, int (length (filter (\<lambda>r. sr_source_ip r = ip) rs))))
       (remdups (map sr_source_ip rs))"

definition sql_failed_by_ip :: "int \<Rightarrow> (nat \<Rightarrow> int) \<Rightarrow> db \<Rightarrow> (string \<times> int) list" where
  "sql_failed_by_ip since rank d =
     limit_rows 20 (order_by (\<lambda>g. - snd g) rank (ip_groups (failed_since since d)))"

definition FailedSSHByIP :: "time \<Rightarrow> world \<Rightarrow> (IPCount list \<times> db_error option) \<times> world" where
  "FailedSSHByIP since =
     query (sql_failed_by_ip (Unix since)) (\<lambda>g. \<lparr>icIP = fst g, icCount = snd g\<rparr>)"

section \<open>Tunnel events\<close>

definition sql_insert_tunnel :: "TunnelEvent \<Rightarrow> db \<Rightarrow> db_error + unit \<times> db" where
  "sql_insert_tunnel e d =
     (let i = tunnel_seq d + 1
      in Inr ((), d\<lparr>tunnel_seq := i,
           tunnel_tbl := tunnel_tbl d @
             [\<lparr>tr_id = i, tr_occurred_at = Unix (teOccurredAt e), tr_event_type = teEventType e,
               tr_detail = teDetail e\<rparr>]\<rparr>))"

definition InsertTunnelEvent :: "TunnelEvent \<Rightarrow> world \<Rightarrow> (db_error + unit) \<times> world" where
  "InsertTunnelEvent e = exec (sql_insert_tunnel e)"

definition scan_tunnel :: "tunnel_row \<Rightarrow> TunnelEvent" where
  "scan_tunnel r =
     \<lparr>teID = tr_id r, teOccurredAt = time_Unix (tr_occurred_at r), teEventType = tr_event_type r,
      teDetail = tr_detail r\<rparr>"

definition sql_recent_tunnel :: "int \<Rightarrow> (nat \<Rightarrow> int) \<Rightarrow> db \<Rightarrow> tunnel_row list" where
  "sql_recent_tunnel n rank d = limit_rows n (order_by (\<lambda>r. - tr_occurred_at r) rank (tunnel_tbl d))"

definition RecentTunnelEvents :: "int \<Rightarrow> world \<Rightarrow> (TunnelEvent list \<times> db_error option) \<times> world" where
  "RecentTunnelEvents n = query (sql_recent_tunnel n) scan_tunnel"

section \<open>Thresholds\<close>

definition GetThresholds :: "world \<Rightarrow> ((string \<rightharpoonup> float64) \<times> db_error option) \<times> world" where
  "GetThresholds w =
     (case query (\<lambda>rank d. visit rank (thresholds_tbl d)) (\<lambda>kv. kv) w of
        ((kvs, err), w') \<Rightarrow> ((map_of (rev kvs), err), w'))"

text \<open>The upsert; SQLite stores NaN as NULL, which the column refuses.\<close>

definition sql_set_threshold :: "string \<Rightarrow> float64 \<Rightarrow> db \<Rightarrow> db_error + unit \<times> db" where
  "sql_set_threshold k v d =
     (if v = NaN then Inl NotNullViolation
      else Inr ((), d\<lparr>thresholds_tbl := AList.update k v (thresholds_tbl d)\<rparr>))"

definition SetThreshold :: "string \<Rightarrow> float64 \<Rightarrow> world \<Rightarrow> (db_error + unit) \<times> world" where
  "SetThreshold k v = exec (sql_set_threshold k v)"

end
