(* ===== verification/Interfaces.thy ===== *)
theory Interfaces
  imports Storage
begin

text \<open>
  The contracts between the storage layer and the components that call it, as locales: an
  append-only event log (SSH events, tunnel events) and the store of alerts. The clients'
  loops are defined here over the operations of the interface, and proved under its laws.
\<close>

section \<open>Event logs\<close>

text \<open>A loop that inserts events and ignores the errors: \<open>_ = db.InsertEvent(e)\<close>.\<close>

fun append_all :: "('e \<Rightarrow> 's \<Rightarrow> ('x + unit) \<times> 's) \<Rightarrow> 'e list \<Rightarrow> 's \<Rightarrow> 's" where
  "append_all app [] s = s"
| "append_all app (e # es) s = append_all app es (snd (app e s))"

lemma append_all_append: "append_all app (es @ fs) s = append_all app fs (append_all app es s)"
  by (induction es arbitrary: s) simp_all

locale event_log =
  fixes app :: "'e \<Rightarrow> 's \<Rightarrow> ('x + unit) \<times> 's"
    and rows :: "'s \<Rightarrow> 'k list"
    and key :: "'e \<Rightarrow> 'k"
    and serving :: "'s \<Rightarrow> bool"
  assumes app_ok: "app e s = (Inr u, s') \<Longrightarrow> rows s' = rows s @ [key e]"
    and app_err: "app e s = (Inl x, s') \<Longrightarrow> rows s' = rows s"
    and app_serving: "serving s \<Longrightarrow> \<exists>s'. app e s = (Inr (), s') \<and> serving s'"
begin

lemma app_rows: "rows (snd (app e s)) = rows s \<or> rows (snd (app e s)) = rows s @ [key e]"
  by (cases "app e s"; cases "fst (app e s)") (auto dest: app_ok app_err)

lemma append_all_rows: "\<exists>ks. rows (append_all app es s) = rows s @ ks \<and> subseq ks (map key es)"
proof (induction es arbitrary: s)
  case (Cons e es)
  obtain ks where ks: "rows (append_all app es (snd (app e s))) = rows (snd (app e s)) @ ks"
    "subseq ks (map key es)" using Cons.IH by blast
  then show ?case
    using app_rows [of e s] by (auto intro: exI [of _ "key e # ks"])
qed simp

lemma append_all_serving:
  "serving s \<Longrightarrow> rows (append_all app es s) = rows s @ map key es \<and> serving (append_all app es s)"
proof (induction es arbitrary: s)
  case (Cons e es)
  then obtain s' where "app e s = (Inr (), s')" "serving s'" using app_serving by blast
  with Cons.IH [of s'] app_ok [of e s "()" s'] show ?case by simp
qed simp

end

section \<open>The store of alerts\<close>

text \<open>
  What the alert engine relies on: \<open>open_alerts s\<close> maps the ids of the unresolved alerts to
  their kinds; \<open>ok\<close> is the provider's invariant, \<open>serving\<close> says that the engine refuses no call.
\<close>

locale alert_store =
  fixes ins :: "Alert \<Rightarrow> 's \<Rightarrow> ('x + int) \<times> 's"
    and res :: "int \<Rightarrow> time \<Rightarrow> 's \<Rightarrow> ('x + unit) \<times> 's"
    and now :: "'s \<Rightarrow> time \<times> 's"
    and open_alerts :: "'s \<Rightarrow> int \<rightharpoonup> string"
    and ok :: "'s \<Rightarrow> bool"
    and serving :: "'s \<Rightarrow> bool"
  assumes ins_ok: "ok s \<Longrightarrow> ins a s = (Inr i, s') \<Longrightarrow>
      ok s' \<and> open_alerts s i = None \<and> open_alerts s' = (open_alerts s)(i \<mapsto> alKind a)"
    and ins_err: "ok s \<Longrightarrow> ins a s = (Inl e, s') \<Longrightarrow> ok s' \<and> open_alerts s' = open_alerts s"
    and ins_serving: "serving s \<Longrightarrow> alThreshold a \<le> alValue a \<Longrightarrow> \<exists>i s'. ins a s = (Inr i, s') \<and> serving s'"
    and res_ok: "ok s \<Longrightarrow> res i t s = (Inr u, s') \<Longrightarrow> ok s' \<and> open_alerts s' = (open_alerts s)(i := None)"
    and res_err: "ok s \<Longrightarrow> res i t s = (Inl e, s') \<Longrightarrow> ok s' \<and> open_alerts s' = open_alerts s"
    and res_serving: "serving s \<Longrightarrow> \<exists>s'. res i t s = (Inr (), s') \<and> serving s'"
    and now_ok: "ok s \<Longrightarrow> now s = (t, s') \<Longrightarrow> ok s' \<and> open_alerts s' = open_alerts s"
    and now_serving: "serving s \<Longrightarrow> now s = (t, s') \<Longrightarrow> serving s'"

end
