(* ===== verification/Storage_Facts.thy ===== *)
theory Storage_Facts
  imports Interfaces
begin

text \<open>
  What the storage layer guarantees: the well-formedness of the tables and its preservation by
  every call, whatever the engine answers; what each call does when the engine serves it.
\<close>

section \<open>Calls and the rest of the world\<close>

lemma time_Now_frame [simp, world_frame]:
  "wdb (snd (time_Now w)) = wdb w" "verdicts (snd (time_Now w)) = verdicts w"
  "printable (snd (time_Now w)) = printable w"
  by (simp_all add: time_Now_def)

lemma exec_frame [simp, world_frame]:
  "clock (snd (exec stmt w)) = clock w" "printable (snd (exec stmt w)) = printable w"
  "verdicts (snd (exec stmt w)) = stream_tail (verdicts w)"
  by (simp_all add: exec_def Let_def split: verdict.split sum.split)

lemma query_frame [simp, world_frame]:
  "wdb (snd (query sel scan w)) = wdb w" "clock (snd (query sel scan w)) = clock w"
  "printable (snd (query sel scan w)) = printable w"
  "verdicts (snd (query sel scan w)) = stream_tail (verdicts w)"
  by (simp_all add: query_def Let_def split: verdict.split option.split)

lemma query_row_frame [simp, world_frame]:
  "wdb (snd (query_row sel scan w)) = wdb w" "clock (snd (query_row sel scan w)) = clock w"
  "printable (snd (query_row sel scan w)) = printable w"
  "verdicts (snd (query_row sel scan w)) = stream_tail (verdicts w)"
proof -
  have "snd (query_row sel scan w) = snd (query sel scan w)"
    by (simp add: query_row_def split: prod.split list.split option.split)
  then show "wdb (snd (query_row sel scan w)) = wdb w" "clock (snd (query_row sel scan w)) = clock w"
    "printable (snd (query_row sel scan w)) = printable w"
    "verdicts (snd (query_row sel scan w)) = stream_tail (verdicts w)" by simp_all
qed

text \<open>A call changes the tables exactly when it succeeds, and then as its statement says.\<close>

lemma exec_cases:
  obtains (refused) e where "fst (exec stmt w) = Inl e" and "wdb (snd (exec stmt w)) = wdb w"
  | (served) r where "fst (exec stmt w) = Inr r" and "stmt (wdb w) = Inr (r, wdb (snd (exec stmt w)))"
  by (cases "stream_head (verdicts w)"; cases "stmt (wdb w)")
    (auto simp: exec_def Let_def)

lemma exec_Inr: "exec stmt w = (Inr r, w') \<Longrightarrow> stmt (wdb w) = Inr (r, wdb w')"
  by (auto simp: exec_def Let_def split: verdict.splits sum.splits)

lemma exec_Inl: "exec stmt w = (Inl e, w') \<Longrightarrow> wdb w' = wdb w"
  by (auto simp: exec_def Let_def split: verdict.splits sum.splits)

lemma exec_state: "exec stmt w = (Inr r, w') \<Longrightarrow> stmt (wdb w) = Inr (x, d) \<Longrightarrow> wdb w' = d"
  by (auto dest: exec_Inr)

lemma exec_preserves:
  assumes "\<And>r d'. stmt (wdb w) = Inr (r, d') \<Longrightarrow> P d'" and "P (wdb w)"
  shows "P (wdb (snd (exec stmt w)))"
  using assms by (cases rule: exec_cases [of stmt w]) auto

section \<open>An engine that serves every call\<close>

definition healthy :: "world \<Rightarrow> bool" where
  "healthy w \<longleftrightarrow> (\<forall>n. \<exists>rank. verdicts w n = Serve rank None)"

lemma healthy_tail: "healthy w \<Longrightarrow> verdicts w' = stream_tail (verdicts w) \<Longrightarrow> healthy w'"
  by (auto simp: healthy_def stream_tail_def)

lemma healthy_same: "healthy w \<Longrightarrow> verdicts w' = verdicts w \<Longrightarrow> healthy w'"
  by (simp add: healthy_def)

lemma healthy_exec [simp]: "healthy w \<Longrightarrow> healthy (snd (exec stmt w))"
  by (rule healthy_tail) simp_all

lemma healthy_query [simp]: "healthy w \<Longrightarrow> healthy (snd (query sel scan w))"
  by (rule healthy_tail) simp_all

lemma healthy_query_row [simp]: "healthy w \<Longrightarrow> healthy (snd (query_row sel scan w))"
  by (rule healthy_tail) simp_all

lemma healthy_time_Now [simp]: "healthy w \<Longrightarrow> healthy (snd (time_Now w))"
  by (rule healthy_same) simp_all

lemma healthy_head:
  assumes "healthy w"
  obtains rank where "stream_head (verdicts w) = Serve rank None"
  using assms by (auto simp: healthy_def stream_head_def)

lemma exec_healthy:
  assumes "healthy w" and "stmt (wdb w) = Inr (r, d)"
  shows "exec stmt w = (Inr r, w\<lparr>verdicts := stream_tail (verdicts w), wdb := d\<rparr>)"
  using assms by (auto simp: exec_def elim!: healthy_head)

lemma exec_healthy_ex:
  assumes "healthy w" and "stmt (wdb w) = Inr (r, d)"
  shows "\<exists>w'. exec stmt w = (Inr r, w') \<and> healthy w'"
  using exec_healthy [where stmt = stmt, OF assms] assms(1) by (auto intro: healthy_tail)

lemma exec_healthy_error:
  assumes "healthy w" and "stmt (wdb w) = Inl e"
  shows "exec stmt w = (Inl e, w\<lparr>verdicts := stream_tail (verdicts w)\<rparr>)"
  using assms by (auto simp: exec_def elim!: healthy_head)

lemma query_healthy:
  assumes "healthy w"
  obtains rank where "query sel scan w =
    ((map scan (sel rank (wdb w)), None), w\<lparr>verdicts := stream_tail (verdicts w)\<rparr>)"
  using assms by (auto simp: query_def elim!: healthy_head)

text \<open>A healthy world to evaluate in: an engine that serves everything in table order.\<close>

definition fresh_world :: "time \<Rightarrow> world" where
  "fresh_world t =
     \<lparr>wdb = empty_db, verdicts = (\<lambda>_. Serve (\<lambda>_. 0) None), clock = (\<lambda>_. t), printable = (\<lambda>_. True)\<rparr>"

lemma healthy_fresh [simp]: "healthy (fresh_world t)"
  by (simp add: healthy_def fresh_world_def)

section \<open>Well-formed tables\<close>

definition ids_ok :: "('r \<Rightarrow> int) \<Rightarrow> int \<Rightarrow> 'r list \<Rightarrow> bool" where
  "ids_ok rid n rs \<longleftrightarrow> distinct (map rid rs) \<and> (\<forall>r \<in> set rs. rid r \<le> n)"

lemma ids_ok_Nil [simp]: "ids_ok rid n []"
  by (simp add: ids_ok_def)

lemma ids_ok_snoc [intro]: "ids_ok rid n rs \<Longrightarrow> rid r = n + 1 \<Longrightarrow> ids_ok rid (n + 1) (rs @ [r])"
  by (fastforce simp: ids_ok_def)

lemma ids_ok_filter [intro]: "ids_ok rid n rs \<Longrightarrow> ids_ok rid n (filter P rs)"
  by (auto simp: ids_ok_def distinct_map_filter)

lemma ids_ok_map [intro]: "ids_ok rid n rs \<Longrightarrow> (\<And>r. rid (f r) = rid r) \<Longrightarrow> ids_ok rid n (map f rs)"
  by (auto simp: ids_ok_def comp_def)

lemma ids_ok_inj: "ids_ok rid n rs \<Longrightarrow> r \<in> set rs \<Longrightarrow> s \<in> set rs \<Longrightarrow> rid r = rid s \<Longrightarrow> r = s"
  by (auto simp: ids_ok_def distinct_map inj_on_def)

definition db_wf :: "db \<Rightarrow> bool" where
  "db_wf d \<longleftrightarrow>
     ids_ok ar_id (alerts_seq d) (alerts_tbl d) \<and> ids_ok ur_id (checks_seq d) (checks_tbl d) \<and>
     ids_ok rr_id (results_seq d) (results_tbl d) \<and> ids_ok sr_id (ssh_seq d) (ssh_tbl d) \<and>
     ids_ok tr_id (tunnel_seq d) (tunnel_tbl d) \<and>
     distinct (map ur_url (checks_tbl d)) \<and>
     (\<forall>r \<in> set (results_tbl d). rr_check_id r \<in> ur_id ` set (checks_tbl d) \<and> rr_up r \<in> {0, 1}) \<and>
     keys_distinct (thresholds_tbl d)"

lemma db_wf_empty [simp]: "db_wf empty_db"
  by (simp add: db_wf_def empty_db_def)

lemma keys_distinct_seed: "keys_distinct t \<Longrightarrow> keys_distinct (seed_thresholds t)"
proof -
  have one: "keys_distinct t \<Longrightarrow> keys_distinct (insert_or_ignore kv t)" for kv t
    by (cases kv) (auto simp: insert_or_ignore_def keys_distinct_def)
  have "keys_distinct t \<Longrightarrow> keys_distinct (fold insert_or_ignore ds t)" for ds
    by (induction ds arbitrary: t) (simp_all add: one)
  then show "keys_distinct t \<Longrightarrow> keys_distinct (seed_thresholds t)" by (simp add: seed_thresholds_def)
qed

lemma update_check_urls:
  assumes "distinct (map ur_url rs)"
    and "\<forall>r \<in> set rs. ur_id r \<noteq> i \<longrightarrow> ur_url r \<noteq> u" and "distinct (map ur_id rs)"
    and "\<And>r. ur_url (f r) = u" and "\<And>r. ur_id (f r) = ur_id r"
  shows "distinct (map ur_url (map (\<lambda>r. if ur_id r = i then f r else r) rs))"
  using assms
proof (induction rs)
  case (Cons r rs)
  let ?g = "\<lambda>r. if ur_id r = i then f r else r"
  have IH: "distinct (map ur_url (map ?g rs))" using Cons by simp
  have "ur_url (?g r) \<notin> ur_url ` ?g ` set rs"
  proof
    assume "ur_url (?g r) \<in> ur_url ` ?g ` set rs"
    then obtain s where s: "s \<in> set rs" "ur_url (?g r) = ur_url (?g s)" by blast
    then have "ur_id s \<noteq> ur_id r" "ur_url s \<noteq> ur_url r"
      using Cons.prems(1,3) by (metis distinct.simps(2) imageI list.set_map list.simps(9))+
    with s Cons.prems(2,4) show False by (auto split: if_splits)
  qed
  with IH show ?case by auto
qed simp

lemma sql_update_check_wf:
  assumes wf: "db_wf d" and s: "sql_update_check u d = Inr (x, d')"
  shows "db_wf d'"
proof -
  let ?g = "\<lambda>r. if ur_id r = ucID u then set_check_row u r else r"
  have d': "d' = d\<lparr>checks_tbl := map ?g (checks_tbl d)\<rparr>"
    using s by (auto simp: sql_update_check_def split: if_splits)
  have ids: "ur_id (?g r) = ur_id r" for r by (simp add: set_check_row_def)
  have "distinct (map ur_url (map ?g (checks_tbl d)))"
  proof (cases "ucID u \<in> ur_id ` set (checks_tbl d)")
    case True
    then have no: "\<forall>r \<in> set (checks_tbl d). ur_id r \<noteq> ucID u \<longrightarrow> ur_url r \<noteq> ucURL u"
      using s by (auto simp: sql_update_check_def split: if_splits)
    show ?thesis by (rule update_check_urls [OF _ no])
      (use wf in \<open>auto simp: db_wf_def ids_ok_def set_check_row_def\<close>)
  next
    case False
    then have "\<forall>r \<in> set (checks_tbl d). ur_id r \<noteq> ucID u" by (metis imageI)
    then have "map ?g (checks_tbl d) = checks_tbl d" by (intro map_idI) simp
    with wf show ?thesis by (simp add: db_wf_def)
  qed
  moreover have "ur_id ` set (map ?g (checks_tbl d)) = ur_id ` set (checks_tbl d)"
    by (simp only: set_map image_image ids)
  ultimately show ?thesis using wf ids d' by (simp add: db_wf_def ids_ok_map)
qed

lemma filter_distinct_urls: "distinct (map ur_url rs) \<Longrightarrow> distinct (map ur_url (filter P rs))"
  by (rule distinct_map_filter)

lemma sql_delete_check_wf:
  assumes wf: "db_wf d" and s: "sql_delete_check j d = Inr (x, d')"
  shows "db_wf d'"
proof -
  have d': "d' = d\<lparr>checks_tbl := filter (\<lambda>r. ur_id r \<noteq> j) (checks_tbl d),
      results_tbl := filter (\<lambda>r. rr_check_id r \<noteq> j) (results_tbl d)\<rparr>"
    using s by (simp add: sql_delete_check_def)
  have "rr_check_id r \<in> ur_id ` set (checks_tbl d')"
    if r: "r \<in> set (results_tbl d')" for r
  proof -
    from r wf d' have "rr_check_id r \<in> ur_id ` set (checks_tbl d)" "rr_check_id r \<noteq> j"
      by (auto simp: db_wf_def)
    then show ?thesis using d' by force
  qed
  then show ?thesis using wf d'
    by (auto simp: db_wf_def ids_ok_filter filter_distinct_urls)
qed

lemma sql_wf:
  assumes "db_wf d"
  shows "sql_insert_alert a d = Inr (i, d') \<Longrightarrow> db_wf d'"
    and "sql_resolve_alert j t d = Inr (x, d') \<Longrightarrow> db_wf d'"
    and "sql_acknowledge_alert j d = Inr (x, d') \<Longrightarrow> db_wf d'"
    and "sql_insert_check u d = Inr (i, d') \<Longrightarrow> db_wf d'"
    and "sql_insert_result q d = Inr (x, d') \<Longrightarrow> db_wf d'"
    and "sql_insert_ssh e d = Inr (x, d') \<Longrightarrow> db_wf d'"
    and "sql_insert_tunnel f d = Inr (x, d') \<Longrightarrow> db_wf d'"
    and "sql_set_threshold k v d = Inr (x, d') \<Longrightarrow> db_wf d'"
    and "purge_results c d = Inr (x, d') \<Longrightarrow> db_wf d'"
    and "purge_ssh c d = Inr (x, d') \<Longrightarrow> db_wf d'"
    and "purge_tunnel c d = Inr (x, d') \<Longrightarrow> db_wf d'"
    and "purge_alerts c d = Inr (x, d') \<Longrightarrow> db_wf d'"
  using assms
  by (auto simp: sql_insert_alert_def sql_resolve_alert_def sql_acknowledge_alert_def
      sql_insert_check_def sql_insert_result_def sql_insert_ssh_def
      sql_insert_tunnel_def sql_set_threshold_def purge_results_def purge_ssh_def
      purge_tunnel_def purge_alerts_def Let_def int_of_bool_def db_wf_def
      intro!: ids_ok_snoc ids_ok_filter ids_ok_map filter_distinct_urls split: if_splits)

section \<open>The providers of the interfaces\<close>

definition ssh_key :: "SSHEvent \<Rightarrow> int \<times> string \<times> string option \<times> string \<times> string option" where
  "ssh_key e = (Unix (seOccurredAt e), seEventType e, seUsername e, seSourceIP e, sePort e)"

definition ssh_rows :: "world \<Rightarrow> (int \<times> string \<times> string option \<times> string \<times> string option) list" where
  "ssh_rows w =
     map (\<lambda>r. (sr_occurred_at r, sr_event_type r, sr_username r, sr_source_ip r, sr_port r)) (ssh_tbl (wdb w))"

interpretation ssh_log: event_log InsertSSHEvent ssh_rows ssh_key healthy
proof unfold_locales
  fix e w u w'
  assume "InsertSSHEvent e w = (Inr u, w')"
  then have "exec (sql_insert_ssh e) w = (Inr u, w')" by (simp add: InsertSSHEvent_def)
  from exec_state [OF this, unfolded sql_insert_ssh_def Let_def, OF refl]
  show "ssh_rows w' = ssh_rows w @ [ssh_key e]" by (simp add: ssh_rows_def ssh_key_def)
next
  fix e w x w'
  assume "InsertSSHEvent e w = (Inl x, w')"
  then show "ssh_rows w' = ssh_rows w" by (auto simp: InsertSSHEvent_def ssh_rows_def dest: exec_Inl)
next
  fix w e
  assume h: "healthy w"
  show "\<exists>w'. InsertSSHEvent e w = (Inr (), w') \<and> healthy w'"
    unfolding InsertSSHEvent_def
    by (rule exec_healthy_ex [OF h], unfold sql_insert_ssh_def Let_def, rule refl)
qed

definition tunnel_key :: "TunnelEvent \<Rightarrow> int \<times> string \<times> string option" where
  "tunnel_key e = (Unix (teOccurredAt e), teEventType e, teDetail e)"

definition tunnel_rows :: "world \<Rightarrow> (int \<times> string \<times> string option) list" where
  "tunnel_rows w = map (\<lambda>r. (tr_occurred_at r, tr_event_type r, tr_detail r)) (tunnel_tbl (wdb w))"

interpretation tunnel_log: event_log InsertTunnelEvent tunnel_rows tunnel_key healthy
proof unfold_locales
  fix e w u w'
  assume "InsertTunnelEvent e w = (Inr u, w')"
  then have "exec (sql_insert_tunnel e) w = (Inr u, w')" by (simp add: InsertTunnelEvent_def)
  from exec_state [OF this, unfolded sql_insert_tunnel_def Let_def, OF refl]
  show "tunnel_rows w' = tunnel_rows w @ [tunnel_key e]" by (simp add: tunnel_rows_def tunnel_key_def)
next
  fix e w x w'
  assume "InsertTunnelEvent e w = (Inl x, w')"
  then show "tunnel_rows w' = tunnel_rows w"
    by (auto simp: InsertTunnelEvent_def tunnel_rows_def dest: exec_Inl)
next
  fix w e
  assume h: "healthy w"
  show "\<exists>w'. InsertTunnelEvent e w = (Inr (), w') \<and> healthy w'"
    unfolding InsertTunnelEvent_def
    by (rule exec_healthy_ex [OF h], unfold sql_insert_tunnel_def Let_def, rule refl)
qed

text \<open>The unresolved alerts, by id.\<close>

definition open_in :: "alerts_row list \<Rightarrow> int \<rightharpoonup> string" where
  "open_in rs i = map_option ar_kind (find (\<lambda>r. ar_id r = i \<and> ar_resolved_at r = None) rs)"

definition open_alerts :: "world \<Rightarrow> int \<rightharpoonup> string" where
  "open_alerts w = open_in (alerts_tbl (wdb w))"

lemma open_in_Some:
  assumes "ids_ok ar_id n rs"
  shows "open_in rs i = Some k \<longleftrightarrow> (\<exists>r \<in> set rs. ar_id r = i \<and> ar_kind r = k \<and> ar_resolved_at r = None)"
proof
  assume "open_in rs i = Some k"
  then show "\<exists>r \<in> set rs. ar_id r = i \<and> ar_kind r = k \<and> ar_resolved_at r = None"
    by (auto simp: open_in_def find_Some_iff)
next
  assume "\<exists>r \<in> set rs. ar_id r = i \<and> ar_kind r = k \<and> ar_resolved_at r = None"
  then obtain r where r: "r \<in> set rs" "ar_id r = i" "ar_kind r = k" "ar_resolved_at r = None" by blast
  then have "find (\<lambda>r. ar_id r = i \<and> ar_resolved_at r = None) rs \<noteq> None" by (auto simp: find_None_iff)
  then obtain q where q: "find (\<lambda>r. ar_id r = i \<and> ar_resolved_at r = None) rs = Some q" by blast
  then have "q \<in> set rs" "ar_id q = i" by (auto simp: find_Some_iff)
  with r ids_ok_inj [OF assms] have "q = r" by blast
  with q r show "open_in rs i = Some k" by (simp add: open_in_def)
qed

lemma map_eq_by_Some: "(\<And>k. f x = Some k \<longleftrightarrow> g x = Some k) \<Longrightarrow> f x = g x"
  by (metis not_Some_eq)

lemma open_in_insert:
  assumes ids: "ids_ok ar_id n rs" and r: "ar_id r = n + 1" "ar_resolved_at r = None"
  shows "open_in rs (n + 1) = None" and "open_in (rs @ [r]) = (open_in rs)(n + 1 \<mapsto> ar_kind r)"
proof -
  show none: "open_in rs (n + 1) = None"
    using ids by (auto simp: open_in_def find_None_iff ids_ok_def)
  have "open_in (rs @ [r]) i = ((open_in rs)(n + 1 \<mapsto> ar_kind r)) i" for i
    using none r by (induction rs) (auto simp: open_in_def)
  then show "open_in (rs @ [r]) = (open_in rs)(n + 1 \<mapsto> ar_kind r)" by blast
qed

lemma open_in_resolve:
  "open_in (map (\<lambda>r. if ar_id r = i then r\<lparr>ar_resolved_at := Some t\<rparr> else r) rs) = (open_in rs)(i := None)"
proof
  fix j
  show "open_in (map (\<lambda>r. if ar_id r = i then r\<lparr>ar_resolved_at := Some t\<rparr> else r) rs) j = ((open_in rs)(i := None)) j"
    by (induction rs) (auto simp: open_in_def)
qed

interpretation alert_db: alert_store InsertAlert ResolveAlert time_Now open_alerts "\<lambda>w. db_wf (wdb w)" healthy
proof unfold_locales
  fix w a i w'
  assume wf: "db_wf (wdb w)" and i: "InsertAlert a w = (Inr i, w')"
  then have s: "sql_insert_alert a (wdb w) = Inr (i, wdb w')" by (auto simp: InsertAlert_def dest: exec_Inr)
  let ?r = "\<lparr>ar_id = alerts_seq (wdb w) + 1, ar_kind = alKind a, ar_message = alMessage a, ar_value = alValue a,
     ar_threshold = alThreshold a, ar_fired_at = Unix (alFiredAt a), ar_resolved_at = None, ar_acknowledged = 0\<rparr>"
  from s have w': "i = alerts_seq (wdb w) + 1" "alerts_tbl (wdb w') = alerts_tbl (wdb w) @ [?r]"
    by (auto simp: sql_insert_alert_def Let_def split: if_splits dest!: sym [of "db.alerts_tbl_update _ _"])
  from wf have "ids_ok ar_id (alerts_seq (wdb w)) (alerts_tbl (wdb w))" by (simp add: db_wf_def)
  from open_in_insert [OF this, of ?r] w' sql_wf(1) [OF wf s]
  show "db_wf (wdb w') \<and> open_alerts w i = None \<and> open_alerts w' = (open_alerts w)(i \<mapsto> alKind a)"
    by (simp add: open_alerts_def)
next
  fix w a e w'
  assume wf: "db_wf (wdb w)" and "InsertAlert a w = (Inl e, w')"
  then show "db_wf (wdb w') \<and> open_alerts w' = open_alerts w"
    by (auto simp: InsertAlert_def open_alerts_def dest: exec_Inl)
next
  fix w and a :: Alert
  assume h: "healthy w" and a: "alThreshold a \<le> alValue a"
  from a have "alValue a \<noteq> NaN" "alThreshold a \<noteq> NaN" by auto
  then obtain i d where "sql_insert_alert a (wdb w) = Inr (i, d)" by (simp add: sql_insert_alert_def Let_def)
  from exec_healthy_ex [where stmt = "sql_insert_alert a", OF h this]
  show "\<exists>i w'. InsertAlert a w = (Inr i, w') \<and> healthy w'" by (auto simp: InsertAlert_def)
next
  fix w i t u w'
  assume wf: "db_wf (wdb w)" and "ResolveAlert i t w = (Inr u, w')"
  then have s: "sql_resolve_alert i (Unix t) (wdb w) = Inr (u, wdb w')" by (auto simp: ResolveAlert_def dest: exec_Inr)
  then have "alerts_tbl (wdb w') =
      map (\<lambda>r. if ar_id r = i then r\<lparr>ar_resolved_at := Some (Unix t)\<rparr> else r) (alerts_tbl (wdb w))"
    by (auto simp: sql_resolve_alert_def dest!: sym [of "db.alerts_tbl_update _ _"])
  with sql_wf(2) [OF wf s] show "db_wf (wdb w') \<and> open_alerts w' = (open_alerts w)(i := None)"
    by (simp add: open_alerts_def open_in_resolve)
next
  fix w i t e w'
  assume wf: "db_wf (wdb w)" and "ResolveAlert i t w = (Inl e, w')"
  then show "db_wf (wdb w') \<and> open_alerts w' = open_alerts w"
    by (auto simp: ResolveAlert_def open_alerts_def dest: exec_Inl)
next
  fix w i t
  assume h: "healthy w"
  show "\<exists>w'. ResolveAlert i t w = (Inr (), w') \<and> healthy w'"
    unfolding ResolveAlert_def
    by (rule exec_healthy_ex [OF h], unfold sql_resolve_alert_def, rule refl)
next
  fix w t w'
  assume "db_wf (wdb w)" and "time_Now w = (t, w')"
  then show "db_wf (wdb w') \<and> open_alerts w' = open_alerts w"
    by (metis open_alerts_def snd_conv time_Now_frame(1))
next
  fix w t w'
  assume "healthy w" and "time_Now w = (t, w')"
  then show "healthy w'" by (metis healthy_time_Now snd_conv)
qed

end
