(* ===== verification/Alerts.thy ===== *)
theory Alerts
  imports Storage_Facts
begin

text \<open>
  \<open>internal/alerts\<close>: the engine that compares metrics with thresholds, fires alerts and resolves
  them. \<open>Engine\<close> holds the two maps of the Go struct; the database is the world. The evaluation
  loop is written over the operations of the alert store it calls.
\<close>

section \<open>Metrics and checks\<close>

record DiskAlert =
  daMountpoint :: string
  daPercent :: float64

record URLAlert =
  uaID :: int
  uaURL :: string
  uaLabel :: string
  uaUp :: bool

record AllMetrics =
  mCPUPercent :: float64
  mRAMPercent :: float64
  mSwapPercent :: float64
  mDisks :: "DiskAlert list"
  mURLStats :: "URLAlert list"

record check =
  ckKind :: string
  ckValue :: float64
  ckThreshold :: float64
  ckMsg :: string

record Engine =
  thresholds :: "string \<rightharpoonup> float64"
  activeAlerts :: "string \<rightharpoonup> int"

definition NewEngine :: Engine where
  "NewEngine = \<lparr>thresholds = Map.empty, activeAlerts = Map.empty\<rparr>"

text \<open>Reading a missing key of a \<open>map[string]float64\<close> gives 0.\<close>

definition threshold_at :: "(string \<rightharpoonup> float64) \<Rightarrow> string \<Rightarrow> float64" where
  "threshold_at th k = (case th k of None \<Rightarrow> Fin 0 | Some v \<Rightarrow> v)"

definition usage_msg :: "string \<Rightarrow> float64 \<Rightarrow> float64 \<Rightarrow> string" where
  "usage_msg what v t =
     what @ '' at '' @ format_fixed 1 v @ ''% (threshold '' @ format_fixed 0 t @ ''%)''"

definition gauge_check :: "(string \<rightharpoonup> float64) \<Rightarrow> string \<Rightarrow> string \<Rightarrow> float64 \<Rightarrow> check" where
  "gauge_check th kind what v =
     \<lparr>ckKind = kind, ckValue = v, ckThreshold = threshold_at th kind,
      ckMsg = usage_msg what v (threshold_at th kind)\<rparr>"

definition disk_check :: "(string \<rightharpoonup> float64) \<Rightarrow> DiskAlert \<Rightarrow> check" where
  "disk_check th d =
     (let t = threshold_at th ''disk_pct''
      in \<lparr>ckKind = ''disk_pct:'' @ daMountpoint d, ckValue = daPercent d, ckThreshold = t,
          ckMsg = usage_msg (''Disk '' @ daMountpoint d) (daPercent d) t\<rparr>)"

definition url_check :: "(nat \<Rightarrow> bool) \<Rightarrow> URLAlert \<Rightarrow> check" where
  "url_check prt u =
     (let label = (if uaLabel u = [] then uaURL u else uaLabel u)
      in \<lparr>ckKind = ''url_down:'' @ format_int (uaID u),
          ckValue = (if uaUp u then Fin 0 else Fin 1), ckThreshold = Fin 1,
          ckMsg = ''URL '' @ Quote prt label @ '' is DOWN''\<rparr>)"

definition alert_checks :: "(nat \<Rightarrow> bool) \<Rightarrow> (string \<rightharpoonup> float64) \<Rightarrow> AllMetrics \<Rightarrow> check list" where
  "alert_checks prt th m =
     [gauge_check th ''cpu_pct'' ''CPU usage'' (mCPUPercent m),
      gauge_check th ''ram_pct'' ''RAM usage'' (mRAMPercent m),
      gauge_check th ''swap_pct'' ''Swap usage'' (mSwapPercent m)]
     @ map (disk_check th) (mDisks m) @ map (url_check prt) (mURLStats m)"

section \<open>The evaluation loop\<close>

definition alert_of :: "check \<Rightarrow> time \<Rightarrow> Alert" where
  "alert_of c t =
     \<lparr>alID = 0, alKind = ckKind c, alMessage = ckMsg c, alValue = ckValue c,
      alThreshold = ckThreshold c, alFiredAt = t, alResolvedAt = None, alAcknowledged = False\<rparr>"

fun run_checks :: "(Alert \<Rightarrow> 's \<Rightarrow> ('x + int) \<times> 's) \<Rightarrow> (int \<Rightarrow> time \<Rightarrow> 's \<Rightarrow> ('x + unit) \<times> 's)
    \<Rightarrow> ('s \<Rightarrow> time \<times> 's) \<Rightarrow> check list \<Rightarrow> (string \<rightharpoonup> int) \<Rightarrow> 's
    \<Rightarrow> Alert list \<times> 'x option \<times> (string \<rightharpoonup> int) \<times> 's" where
  "run_checks ins res now [] active s = ([], None, active, s)"
| "run_checks ins res now (c # cs) active s =
     (if ckThreshold c \<le> 0 then run_checks ins res now cs active s
      else if ckThreshold c \<le> ckValue c then
        (case active (ckKind c) of
           Some _ \<Rightarrow> run_checks ins res now cs active s
         | None \<Rightarrow>
             (case now s of (t, s1) \<Rightarrow>
               case ins (alert_of c t) s1 of
                 (Inl e, s2) \<Rightarrow> ([], Some e, active, s2)
               | (Inr i, s2) \<Rightarrow>
                   (case run_checks ins res now cs (active(ckKind c \<mapsto> i)) s2 of
                      (fired, err, active', s3) \<Rightarrow>
                        ((alert_of c t)\<lparr>alID := i\<rparr> # fired, err, active', s3))))
      else
        (case active (ckKind c) of
           None \<Rightarrow> run_checks ins res now cs active s
         | Some i \<Rightarrow>
             (case now s of (t, s1) \<Rightarrow>
               run_checks ins res now cs (active(ckKind c := None)) (snd (res i t s1)))))"

definition Evaluate :: "AllMetrics \<Rightarrow> Engine \<Rightarrow> world
    \<Rightarrow> (Alert list \<times> db_error option) \<times> Engine \<times> world" where
  "Evaluate m e w =
     (case run_checks InsertAlert ResolveAlert time_Now
             (alert_checks (printable w) (thresholds e) m) (activeAlerts e) w of
        (fired, err, active, w') \<Rightarrow> ((fired, err), e\<lparr>activeAlerts := active\<rparr>, w'))"

section \<open>Thresholds and restart\<close>

definition LoadThresholds :: "Engine \<Rightarrow> world \<Rightarrow> db_error option \<times> Engine \<times> world" where
  "LoadThresholds e w =
     (case GetThresholds w of
        ((_, Some x), w1) \<Rightarrow> (Some x, e, w1)
      | ((t, None), w1) \<Rightarrow>
          (let e1 = e\<lparr>thresholds := t\<rparr>
           in case ActiveAlerts w1 of
                ((_, Some x), w2) \<Rightarrow> (Some x, e1, w2)
              | ((act, None), w2) \<Rightarrow>
                  (None, e1\<lparr>activeAlerts :=
                     foldl (\<lambda>m a. m(alKind a \<mapsto> alID a)) (activeAlerts e1) act\<rparr>, w2)))"

definition Threshold :: "Engine \<Rightarrow> string \<Rightarrow> float64 \<Rightarrow> float64" where
  "Threshold e k dflt = (case thresholds e k of Some v \<Rightarrow> v | None \<Rightarrow> dflt)"

definition UpdateThreshold :: "string \<Rightarrow> float64 \<Rightarrow> Engine \<Rightarrow> world \<Rightarrow> db_error option \<times> Engine \<times> world" where
  "UpdateThreshold k v e w =
     (case SetThreshold k v w of
        (Inl x, w') \<Rightarrow> (Some x, e, w')
      | (Inr _, w') \<Rightarrow> (None, e\<lparr>thresholds := (thresholds e)(k \<mapsto> v)\<rparr>, w'))"

definition engine_GetThresholds :: "Engine \<Rightarrow> (string \<rightharpoonup> float64)" where
  "engine_GetThresholds e = thresholds e"

section \<open>The loop under the laws of the alert store\<close>

text \<open>The checks that can change anything, and the set of kinds the loop leaves active.\<close>

definition enabled :: "check \<Rightarrow> bool" where
  "enabled c \<longleftrightarrow> \<not> ckThreshold c \<le> 0"

definition breaching :: "check \<Rightarrow> bool" where
  "breaching c \<longleftrightarrow> enabled c \<and> ckThreshold c \<le> ckValue c"

definition check_effect :: "check \<Rightarrow> string set \<Rightarrow> string set" where
  "check_effect c A =
     (if \<not> enabled c then A else if breaching c then insert (ckKind c) A else A - {ckKind c})"

text \<open>The three ways one check goes: nothing to do, firing, resolving.\<close>

lemma run_checks_idle:
  "\<not> enabled c \<or> breaching c = (active (ckKind c) \<noteq> None) \<Longrightarrow>
   run_checks ins res now (c # cs) active s = run_checks ins res now cs active s"
  by (auto simp: enabled_def breaching_def split: option.split)

lemma run_checks_fire:
  assumes "breaching c" and "active (ckKind c) = None" and "now s = (t, s1)"
  shows "run_checks ins res now (c # cs) active s =
    (case ins (alert_of c t) s1 of
       (Inl e, s2) \<Rightarrow> ([], Some e, active, s2)
     | (Inr i, s2) \<Rightarrow>
         (case run_checks ins res now cs (active(ckKind c \<mapsto> i)) s2 of
            (fired, err, active', s3) \<Rightarrow> ((alert_of c t)\<lparr>alID := i\<rparr> # fired, err, active', s3)))"
  using assms by (simp add: enabled_def breaching_def)

lemma run_checks_resolve:
  assumes "enabled c" and "\<not> breaching c" and "active (ckKind c) = Some i" and "now s = (t, s1)"
  shows "run_checks ins res now (c # cs) active s =
    run_checks ins res now cs (active(ckKind c := None)) (snd (res i t s1))"
  using assms by (simp add: enabled_def breaching_def)

lemma check_cases:
  obtains (idle) "\<not> enabled c \<or> breaching c = (active (ckKind c) \<noteq> None)"
  | (fire) "breaching c" "active (ckKind c) = None"
  | (resolve) i where "enabled c" "\<not> breaching c" "active (ckKind c) = Some i"
  by (cases "active (ckKind c)") auto

lemma kinds_apart: "distinct (map ckKind (c # cs)) \<Longrightarrow> d \<in> set cs \<Longrightarrow> ckKind d \<noteq> ckKind c"
  by (metis distinct.simps(2) image_eqI list.set_map list.simps(9))

declare run_checks.simps(2) [simp del]

context alert_store
begin

definition tracked :: "(string \<rightharpoonup> int) \<Rightarrow> 's \<Rightarrow> bool" where
  "tracked active s \<longleftrightarrow> (\<forall>k i. active k = Some i \<longrightarrow> open_alerts s i = Some k)"

definition synced :: "(string \<rightharpoonup> int) \<Rightarrow> 's \<Rightarrow> bool" where
  "synced active s \<longleftrightarrow> (\<forall>k i. active k = Some i \<longleftrightarrow> open_alerts s i = Some k)"

lemma tracked_now: "ok s \<Longrightarrow> tracked active s \<Longrightarrow> now s = (t, s1) \<Longrightarrow> ok s1 \<and> tracked active s1"
  using now_ok [of s t s1] by (simp add: tracked_def)

lemma tracked_insert:
  assumes "ok s" "tracked active s" "ins a s = (Inr i, s')"
  shows "ok s' \<and> tracked (active(alKind a \<mapsto> i)) s'"
  using ins_ok [OF assms(1,3)] assms(2) by (auto simp: tracked_def)

lemma tracked_refused: "ok s \<Longrightarrow> tracked active s \<Longrightarrow> ins a s = (Inl e, s') \<Longrightarrow> ok s' \<and> tracked active s'"
  using ins_err [of s a e s'] by (simp add: tracked_def)

lemma tracked_inj: "tracked active s \<Longrightarrow> active k = Some i \<Longrightarrow> active l = Some i \<Longrightarrow> k = l"
  unfolding tracked_def by (metis option.inject)

lemma tracked_remove:
  assumes "tracked active s" "active k = Some i" "open_alerts s' = open_alerts s \<or> open_alerts s' = (open_alerts s)(i := None)"
  shows "tracked (active(k := None)) s'"
proof -
  have "j \<noteq> i" if "active l = Some j" "l \<noteq> k" for l j
    using tracked_inj [OF assms(1,2)] that by blast
  with assms(1,3) show ?thesis by (auto simp: tracked_def)
qed

lemma tracked_resolve:
  assumes "ok s" "tracked active s" "active k = Some i"
  shows "ok (snd (res i t s)) \<and> tracked (active(k := None)) (snd (res i t s))"
proof -
  obtain r s' where r: "res i t s = (r, s')" by (cases "res i t s")
  have "ok s' \<and> (open_alerts s' = open_alerts s \<or> open_alerts s' = (open_alerts s)(i := None))"
  proof (cases r)
    case (Inl x)
    with res_err [OF assms(1)] r show ?thesis by blast
  next
    case (Inr u)
    with res_ok [OF assms(1)] r show ?thesis by blast
  qed
  then show ?thesis using tracked_remove [OF assms(2,3)] r by simp
qed

lemma run_checks_tracked:
  assumes "ok s" and "tracked active s" and "run_checks ins res now cs active s = (fired, err, active', s')"
  shows "ok s' \<and> tracked active' s'"
  using assms
proof (induction cs arbitrary: active s fired)
  case (Cons c cs)
  obtain t s1 where now: "now s = (t, s1)" by (cases "now s")
  note s1 = tracked_now [OF Cons.prems(1,2) now]
  show ?case
  proof (cases rule: check_cases [of c active])
    case idle
    with Cons show ?thesis by (metis run_checks_idle)
  next
    case fire
    obtain r s2 where r: "ins (alert_of c t) s1 = (r, s2)" by (cases "ins (alert_of c t) s1")
    note run = Cons.prems(3) [unfolded run_checks_fire [where active = active and now = now, OF fire now] r]
    show ?thesis
    proof (cases r)
      case (Inl x)
      with run have "active' = active \<and> s' = s2" by simp
      moreover have "ok s2 \<and> tracked active s2" using tracked_refused [of s1 active] s1 r Inl by blast
      ultimately show ?thesis by simp
    next
      case (Inr i)
      have "ok s2 \<and> tracked (active(ckKind c \<mapsto> i)) s2"
        using tracked_insert [of s1 active] s1 r Inr by (fastforce simp: alert_of_def)
      with run Inr Cons.IH [of s2] show ?thesis by (auto split: prod.splits)
    qed
  next
    case (resolve i)
    from Cons.prems(3) [unfolded run_checks_resolve [where active = active and now = now, OF resolve now]]
      tracked_resolve [where active = active and s = s1 and t = t, OF _ _ resolve(3)] s1 Cons.IH show ?thesis by blast
  qed
qed simp

text \<open>While the engine serves every call, the map and the unresolved rows agree exactly.\<close>

lemma synced_tracked: "synced active s \<Longrightarrow> tracked active s"
  by (simp add: synced_def tracked_def)

lemma synced_now:
  "ok s \<Longrightarrow> serving s \<Longrightarrow> synced active s \<Longrightarrow> now s = (t, s1) \<Longrightarrow> ok s1 \<and> serving s1 \<and> synced active s1"
  using now_ok [of s t s1] now_serving [of s t s1] by (simp add: synced_def)

lemma synced_insert:
  assumes "ok s" "synced active s" "ins a s = (Inr i, s')" "active (alKind a) = None"
  shows "ok s' \<and> synced (active(alKind a \<mapsto> i)) s'"
proof -
  have "open_alerts s j \<noteq> Some (alKind a)" for j using assms(2,4) by (metis option.distinct(1) synced_def)
  then show ?thesis using ins_ok [OF assms(1,3)] assms(2) by (auto simp: synced_def)
qed

lemma synced_resolve:
  assumes "ok s" "synced active s" "active k = Some i" "res i t s = (Inr u, s')"
  shows "ok s' \<and> synced (active(k := None)) s'"
proof -
  have "k = l" if "open_alerts s i = Some l" for l using assms(2,3) that by (metis option.inject synced_def)
  moreover have "j = i" if "open_alerts s j = Some k" for j using assms(2,3) that by (metis option.inject synced_def)
  ultimately show ?thesis using res_ok [OF assms(1,4)] assms(2) by (auto simp: synced_def)
qed

lemma run_checks_synced:
  assumes "ok s" and "serving s" and "synced active s"
    and "run_checks ins res now cs active s = (fired, err, active', s')"
  shows "err = None \<and> ok s' \<and> serving s' \<and> synced active' s' \<and>
    dom active' = fold check_effect cs (dom active) \<and>
    (distinct (map ckKind cs) \<longrightarrow>
       map alKind fired = map ckKind (filter (\<lambda>c. breaching c \<and> active (ckKind c) = None) cs))"
  using assms
proof (induction cs arbitrary: active s fired)
  case (Cons c cs)
  obtain t s1 where now: "now s = (t, s1)" by (cases "now s")
  note s1 = synced_now [OF Cons.prems(1-3) now]
  show ?case
  proof (cases rule: check_cases [of c active])
    case idle
    then have "check_effect c (dom active) = dom active" and "\<not> (breaching c \<and> active (ckKind c) = None)"
      by (auto simp: check_effect_def breaching_def)
    with Cons.IH [OF Cons.prems(1-3)] Cons.prems(4) idle show ?thesis
      by (auto simp: run_checks_idle)
  next
    case fire
    from fire(1) have "alThreshold (alert_of c t) \<le> alValue (alert_of c t)"
      by (simp add: breaching_def alert_of_def)
    then obtain i s2 where r: "ins (alert_of c t) s1 = (Inr i, s2)" and s2: "serving s2"
      using ins_serving s1 by blast
    have "ok s2 \<and> synced (active(ckKind c \<mapsto> i)) s2"
      using synced_insert [of s1 active "alert_of c t" i s2] s1 r fire(2) by (simp add: alert_of_def)
    moreover obtain fs where "run_checks ins res now cs (active(ckKind c \<mapsto> i)) s2 = (fs, err, active', s')"
      and fired: "fired = (alert_of c t)\<lparr>alID := i\<rparr> # fs"
      using Cons.prems(4) [unfolded run_checks_fire [where active = active and now = now, OF fire now] r] by (auto split: prod.splits)
    ultimately have IH: "err = None \<and> ok s' \<and> serving s' \<and> synced active' s' \<and>
      dom active' = fold check_effect cs (dom (active(ckKind c \<mapsto> i))) \<and>
      (distinct (map ckKind cs) \<longrightarrow> map alKind fs =
         map ckKind (filter (\<lambda>d. breaching d \<and> (active(ckKind c \<mapsto> i)) (ckKind d) = None) cs))"
      using Cons.IH [of s2] s2 by blast
    have "check_effect c (dom active) = dom (active(ckKind c \<mapsto> i))"
      using fire(1) by (auto simp: check_effect_def breaching_def)
    moreover have "filter (\<lambda>d. breaching d \<and> (active(ckKind c \<mapsto> i)) (ckKind d) = None) cs =
        filter (\<lambda>d. breaching d \<and> active (ckKind d) = None) cs" if "distinct (map ckKind (c # cs))"
      using kinds_apart [OF that] by (intro filter_cong) auto
    ultimately show ?thesis using IH fire fired by (auto simp: alert_of_def)
  next
    case (resolve i)
    obtain s2 where r: "res i t s1 = (Inr (), s2)" and s2: "serving s2" using res_serving s1 by blast
    have "ok s2 \<and> synced (active(ckKind c := None)) s2"
      using synced_resolve [where active = active, OF _ _ resolve(3) r] s1 by blast
    moreover have "run_checks ins res now cs (active(ckKind c := None)) s2 = (fired, err, active', s')"
      using Cons.prems(4) [unfolded run_checks_resolve [where active = active and now = now, OF resolve now] r] by simp
    ultimately have IH: "err = None \<and> ok s' \<and> serving s' \<and> synced active' s' \<and>
      dom active' = fold check_effect cs (dom (active(ckKind c := None))) \<and>
      (distinct (map ckKind cs) \<longrightarrow> map alKind fired =
         map ckKind (filter (\<lambda>d. breaching d \<and> (active(ckKind c := None)) (ckKind d) = None) cs))"
      using Cons.IH [of s2] s2 by blast
    have "check_effect c (dom active) = dom (active(ckKind c := None))"
      using resolve by (auto simp: check_effect_def)
    moreover have "filter (\<lambda>d. breaching d \<and> (active(ckKind c := None)) (ckKind d) = None) cs =
        filter (\<lambda>d. breaching d \<and> active (ckKind d) = None) cs" if "distinct (map ckKind (c # cs))"
      using kinds_apart [OF that] by (intro filter_cong) auto
    ultimately show ?thesis using IH resolve by auto
  qed
qed simp

text \<open>Kinds without an enabled check are left alone, whatever the store answers.\<close>

lemma run_checks_unchecked:
  assumes "run_checks ins res now cs active s = (fired, err, active', s')"
    and "k \<notin> ckKind ` set (filter enabled cs)"
  shows "active' k = active k"
  using assms
proof (induction cs arbitrary: active s fired)
  case (Cons c cs)
  obtain t s1 where now: "now s = (t, s1)" by (cases "now s")
  have rest: "k \<notin> ckKind ` set (filter enabled cs)" using Cons.prems(2) by auto
  show ?case
  proof (cases rule: check_cases [of c active])
    case idle
    with Cons.IH [OF _ rest] Cons.prems(1) show ?thesis by (metis run_checks_idle)
  next
    case fire
    then have "ckKind c \<noteq> k" using Cons.prems(2) by (auto simp: breaching_def)
    with Cons.IH [OF _ rest] Cons.prems(1) [unfolded run_checks_fire [where active = active and now = now, OF fire now]] show ?thesis
      by (auto split: prod.splits sum.splits)
  next
    case (resolve i)
    then have "ckKind c \<noteq> k" using Cons.prems(2) by auto
    with Cons.IH [OF _ rest] Cons.prems(1) [unfolded run_checks_resolve [where active = active and now = now, OF resolve now]] show ?thesis
      by fastforce
  qed
qed simp

end

end
