(* ===== verification/Urlcheck.thy ===== *)
theory Urlcheck
  imports Storage_Facts
begin

text \<open>
  \<open>internal/urlcheck\<close>: the checker, which runs one goroutine per enabled URL check and keeps a
  cache of summaries. A Go map the code ranges over is an association list. Channels made for
  stopping a goroutine are numbered; \<open>closed\<close> holds the closed ones, \<open>workers\<close> the goroutines
  that run \<open>runCheck\<close> with the point they have reached. Closing a closed channel is a panic,
  modelled as \<open>None\<close>. The operations are compositions of the code's atomic pieces: a database
  call, a section under the mutex, a channel operation.
\<close>

section \<open>Data\<close>

record Result =
  rsCheckID :: int
  rsCheckedAt :: time
  rsUp :: bool
  rsStatusCode :: "int option"
  rsLatencyMS :: "int option"
  rsError :: "string option"
  rsURL :: string
  rsLabel :: string

record Summary =
  smCheck :: URLCheck
  smLastResult :: "Result option"
  smUptimePct :: float64
  smHistory :: "Result list"

record checkState =
  csCheck :: URLCheck
  csStop :: nat

text \<open>Where a goroutine stands in \<open>runCheck\<close>: in one of the stages of \<open>doAndStore\<close>, or in \<open>select\<close>.\<close>

datatype phase =
  Checking
| Storing Result
| Measuring Result
| Recording Result float64
| Sending Result
| Waiting

record worker =
  wkCtx :: nat
  wkState :: checkState
  wkPhase :: phase

record Checker =
  checks :: "(int \<times> checkState) list"
  summaries :: "(int \<times> Summary) list"
  ResultCh :: "Result list"
  made :: nat
  closed :: "nat list"
  workers :: "worker list"

definition NewChecker :: Checker where
  "NewChecker = \<lparr>checks = [], summaries = [], ResultCh = [], made = 0, closed = [], workers = []\<rparr>"

section \<open>One request\<close>

text \<open>
  The network, as the HTTP client sees it: whether a URL makes a request; the answer to a
  request made within a timeout after the requests \<open>via\<close>: a failure, or a status with the
  address it redirects to; and a URL as error messages show it, its password starred out.
\<close>

datatype hop =
  HopFail string
| HopResp int "string option"

record network =
  newRequest :: "string \<Rightarrow> string option"
  roundTrip :: "int \<Rightarrow> string list \<Rightarrow> string \<Rightarrow> hop"
  shownURL :: "string \<Rightarrow> string"

datatype redirect_policy = Follow | UseLastResponse

definition CheckRedirect :: "string list \<Rightarrow> redirect_policy" where
  "CheckRedirect via = (if 5 \<le> length via then UseLastResponse else Follow)"

function client_Do :: "network \<Rightarrow> int \<Rightarrow> string list \<Rightarrow> string \<Rightarrow> string + int" where
  "client_Do net timeout via url =
     (case roundTrip net timeout via url of
        HopFail e \<Rightarrow> Inl e
      | HopResp code None \<Rightarrow> Inr code
      | HopResp code (Some loc) \<Rightarrow>
          (case CheckRedirect (via @ [url]) of
             UseLastResponse \<Rightarrow> Inr code
           | Follow \<Rightarrow> client_Do net timeout (via @ [url]) loc))"
  by pat_completeness auto
termination
  by (relation "measure (\<lambda>(net, timeout, via, url). 5 - length via)")
    (auto simp: CheckRedirect_def split: if_splits)

declare client_Do.simps [simp del]

text \<open>\<open>time.Duration(n) * time.Second\<close> wraps at 64 bits.\<close>

definition seconds :: "int \<Rightarrow> int" where
  "seconds n = int64 (n * Second)"

definition check_timeout :: "URLCheck \<Rightarrow> int" where
  "check_timeout ch = (let t = seconds (ucTimeoutSeconds ch) in if t \<le> 0 then 10 * Second else t)"

definition check_interval :: "URLCheck \<Rightarrow> int" where
  "check_interval ch = (let i = seconds (ucIntervalSeconds ch) in if i < Second then Second else i)"

text \<open>A request whose context is done fails with the context's error, wrapped as a \<open>url.Error\<close>.\<close>

definition send_request :: "network \<Rightarrow> bool \<Rightarrow> (nat \<Rightarrow> bool) \<Rightarrow> URLCheck \<Rightarrow> string + int" where
  "send_request net ctxDone prt ch =
     (if ctxDone then Inl (''Get '' @ Quote prt (shownURL net (ucURL ch)) @ '': context canceled'')
      else client_Do net (check_timeout ch) [] (ucURL ch))"

definition failed_result :: "URLCheck \<Rightarrow> time \<Rightarrow> string \<Rightarrow> Result" where
  "failed_result ch start e =
     \<lparr>rsCheckID = ucID ch, rsCheckedAt = start, rsUp = False, rsStatusCode = None,
      rsLatencyMS = None, rsError = Some e, rsURL = [], rsLabel = []\<rparr>"

definition doCheck :: "network \<Rightarrow> bool \<Rightarrow> URLCheck \<Rightarrow> world \<Rightarrow> Result \<times> world" where
  "doCheck net ctxDone ch w =
     (case time_Now w of (start, w1) \<Rightarrow>
        case newRequest net (ucURL ch) of
          Some e \<Rightarrow> (failed_result ch start e, w1)
        | None \<Rightarrow>
            (case time_Now w1 of (now, w2) \<Rightarrow>
               case send_request net ctxDone (printable w) ch of
                 Inl e \<Rightarrow> (failed_result ch start e, w2)
               | Inr code \<Rightarrow>
                   (\<lparr>rsCheckID = ucID ch, rsCheckedAt = start, rsUp = (code < 400),
                     rsStatusCode = Some code, rsLatencyMS = Some (duration_ms (now - start)),
                     rsError = None, rsURL = [], rsLabel = []\<rparr>, w2)))"

section \<open>Storing a result\<close>

definition stored_result :: "Result \<Rightarrow> URLResult" where
  "stored_result r =
     \<lparr>urID = 0, urCheckID = rsCheckID r, urCheckedAt = rsCheckedAt r, urUp = rsUp r,
      urStatusCode = rsStatusCode r, urLatencyMS = rsLatencyMS r, urError = rsError r\<rparr>"

definition named_check :: "network \<Rightarrow> bool \<Rightarrow> URLCheck \<Rightarrow> world \<Rightarrow> Result \<times> world" where
  "named_check net ctxDone ch w =
     (case doCheck net ctxDone ch w of
        (r, w') \<Rightarrow> (r\<lparr>rsURL := ucURL ch, rsLabel := ucLabel ch\<rparr>, w'))"

definition store_result :: "Result \<Rightarrow> world \<Rightarrow> world" where
  "store_result r w = snd (InsertURLResult (stored_result r) w)"

definition measure_uptime :: "URLCheck \<Rightarrow> world \<Rightarrow> float64 \<times> world" where
  "measure_uptime ch w =
     (case time_Now w of (t, w1) \<Rightarrow>
        case URLUptime (ucID ch) (t - 24 * Hour) w1 of
          (Inl _, w2) \<Rightarrow> (Fin 0, w2)
        | (Inr p, w2) \<Rightarrow> (p, w2))"

definition record_summary :: "Result \<Rightarrow> float64 \<Rightarrow> Summary \<Rightarrow> Summary" where
  "record_summary r uptime s =
     s\<lparr>smLastResult := Some r, smUptimePct := uptime, smHistory := take 20 (r # smHistory s)\<rparr>"

definition record_result :: "int \<Rightarrow> Result \<Rightarrow> float64 \<Rightarrow> Checker \<Rightarrow> Checker" where
  "record_result i r uptime c =
     (case map_of (summaries c) i of
        None \<Rightarrow> c
      | Some s \<Rightarrow> c\<lparr>summaries := AList.update i (record_summary r uptime s) (summaries c)\<rparr>)"

text \<open>A send that is dropped when the channel, of capacity 64, is full.\<close>

definition send_result :: "Result \<Rightarrow> Checker \<Rightarrow> Checker" where
  "send_result r c = (if length (ResultCh c) < 64 then c\<lparr>ResultCh := ResultCh c @ [r]\<rparr> else c)"

definition doAndStore :: "network \<Rightarrow> bool \<Rightarrow> URLCheck \<Rightarrow> Checker \<Rightarrow> world \<Rightarrow> Checker \<times> world" where
  "doAndStore net ctxDone ch c w =
     (case named_check net ctxDone ch w of (r, w1) \<Rightarrow>
        case measure_uptime ch (store_result r w1) of (uptime, w2) \<Rightarrow>
          (send_result r (record_result (ucID ch) r uptime c), w2))"

section \<open>Starting and stopping\<close>

definition startCheck :: "nat \<Rightarrow> URLCheck \<Rightarrow> Checker \<Rightarrow> Checker" where
  "startCheck ctx ch c =
     (let st = \<lparr>csCheck = ch, csStop = made c\<rparr>
      in c\<lparr>made := made c + 1,
           checks := AList.update (ucID ch) st (checks c),
           summaries :=
             (if map_of (summaries c) (ucID ch) = None
              then AList.update (ucID ch)
                     \<lparr>smCheck = ch, smLastResult = None, smUptimePct = Fin 0, smHistory = []\<rparr> (summaries c)
              else summaries c),
           workers := workers c @ [\<lparr>wkCtx = ctx, wkState = st, wkPhase = Checking\<rparr>]\<rparr>)"

definition stopCheck :: "int \<Rightarrow> Checker \<Rightarrow> Checker option" where
  "stopCheck i c =
     (case map_of (checks c) i of
        None \<Rightarrow> Some c
      | Some st \<Rightarrow>
          if csStop st \<in> set (closed c) then None
          else Some (c\<lparr>closed := csStop st # closed c, checks := AList.delete i (checks c)\<rparr>))"

definition new_summary :: "URLCheck \<Rightarrow> Checker \<Rightarrow> Checker" where
  "new_summary ch c = c\<lparr>summaries := AList.update (ucID ch)
     \<lparr>smCheck = ch, smLastResult = None, smUptimePct = Fin 0, smHistory = []\<rparr> (summaries c)\<rparr>"

definition update_summary :: "URLCheck \<Rightarrow> Checker \<Rightarrow> Checker" where
  "update_summary ch c =
     (case map_of (summaries c) (ucID ch) of
        None \<Rightarrow> c
      | Some s \<Rightarrow> c\<lparr>summaries := AList.update (ucID ch) (s\<lparr>smCheck := ch\<rparr>) (summaries c)\<rparr>)"

definition delete_summary :: "int \<Rightarrow> Checker \<Rightarrow> Checker" where
  "delete_summary i c = c\<lparr>summaries := AList.delete i (summaries c)\<rparr>"

definition start_if_enabled :: "nat \<Rightarrow> URLCheck \<Rightarrow> Checker \<Rightarrow> Checker" where
  "start_if_enabled ctx ch c = (if ucEnabled ch then startCheck ctx ch c else c)"

definition Start :: "nat \<Rightarrow> Checker \<Rightarrow> world \<Rightarrow> db_error option \<times> Checker \<times> world" where
  "Start ctx c w =
     (case ListURLChecks w of
        ((_, Some e), w1) \<Rightarrow> (Some e, c, w1)
      | ((chs, None), w1) \<Rightarrow> (None, fold (start_if_enabled ctx) chs c, w1))"

definition Add :: "nat \<Rightarrow> URLCheck \<Rightarrow> Checker \<Rightarrow> world \<Rightarrow> (URLCheck \<times> db_error option) \<times> Checker \<times> world" where
  "Add ctx ch c w =
     (case InsertURLCheck ch w of
        (Inl e, w1) \<Rightarrow> ((ch, Some e), c, w1)
      | (Inr i, w1) \<Rightarrow>
          (let ch1 = ch\<lparr>ucID := i\<rparr>
           in ((ch1, None), start_if_enabled ctx ch1 (new_summary ch1 c), w1)))"

definition Update :: "nat \<Rightarrow> URLCheck \<Rightarrow> Checker \<Rightarrow> world \<Rightarrow> (db_error option \<times> Checker \<times> world) option" where
  "Update ctx ch c w =
     (case UpdateURLCheck ch w of
        (Inl e, w1) \<Rightarrow> Some (Some e, c, w1)
      | (Inr _, w1) \<Rightarrow>
          (case stopCheck (ucID ch) c of
             None \<Rightarrow> None
           | Some c1 \<Rightarrow> Some (None, start_if_enabled ctx ch (update_summary ch c1), w1)))"

definition Remove :: "int \<Rightarrow> Checker \<Rightarrow> world \<Rightarrow> (db_error option \<times> Checker \<times> world) option" where
  "Remove i c w =
     (case stopCheck i c of
        None \<Rightarrow> None
      | Some c1 \<Rightarrow>
          (case DeleteURLCheck i w of
             (Inl e, w1) \<Rightarrow> Some (Some e, delete_summary i c1, w1)
           | (Inr _, w1) \<Rightarrow> Some (None, delete_summary i c1, w1)))"

text \<open>Ranging over a map visits the keys in an order of the runtime's choosing.\<close>

definition Summaries :: "(nat \<Rightarrow> int) \<Rightarrow> Checker \<Rightarrow> Summary list" where
  "Summaries rank c = visit rank (map snd (summaries c))"

definition GetSummary :: "int \<Rightarrow> Checker \<Rightarrow> Summary option" where
  "GetSummary i c = map_of (summaries c) i"

end
