(* ===== verification/Sse.thy ===== *)
theory Sse
  imports Go_Prelude
begin

text \<open>
  \<open>internal/sse\<close>: the broker that relays events to the connected clients. Channels are queues
  with the code's capacities; a client is the handler of one connection together with its
  \<open>send\<close> channel, and is named by its position in the list of connections. Closing a closed
  channel and sending on a closed channel are panics, modelled as \<open>None\<close>.
\<close>

section \<open>Events, clients, broker\<close>

record Event =
  evType :: string
  evData :: string

text \<open>Where the handler \<open>ServeHTTP\<close> of a connection stands.\<close>

datatype stage = Registering | Streaming | Leaving | Gone

record client =
  clID :: string
  clSend :: "Event list"
  clClosed :: bool
  clStage :: stage
  clWritten :: "Event list"

record Broker =
  clients :: "(string \<times> nat) list"
  broadcast :: "Event list"
  register :: "nat list"
  unregister :: "nat list"
  running :: bool
  conns :: "client list"

definition NewBroker :: Broker where
  "NewBroker = \<lparr>clients = [], broadcast = [], register = [], unregister = [], running = True, conns = []\<rparr>"

definition ClientCount :: "Broker \<Rightarrow> nat" where
  "ClientCount b = length (clients b)"

section \<open>Posting events\<close>

text \<open>A send that is dropped when 256 events wait.\<close>

definition Broadcast :: "Event \<Rightarrow> Broker \<Rightarrow> Broker" where
  "Broadcast e b = (if length (broadcast b) < 256 then b\<lparr>broadcast := broadcast b @ [e]\<rparr> else b)"

text \<open>\<open>json.Marshal\<close> may refuse a value (a NaN, for instance); nothing is posted then.\<close>

definition BroadcastJSON :: "('v \<Rightarrow> string option) \<Rightarrow> string \<Rightarrow> 'v \<Rightarrow> Broker \<Rightarrow> Broker" where
  "BroadcastJSON marshal t v b =
     (case marshal v of None \<Rightarrow> b | Some d \<Rightarrow> Broadcast \<lparr>evType = t, evData = d\<rparr> b)"

definition heartbeat :: Event where
  "heartbeat = \<lparr>evType = ''heartbeat'', evData = ''{}''\<rparr>"

section \<open>The branches of Run\<close>

definition run_register :: "Broker \<Rightarrow> Broker option" where
  "run_register b =
     (case register b of
        [] \<Rightarrow> Some b
      | c # cs \<Rightarrow> Some (b\<lparr>register := cs, clients := AList.update (clID (conns b ! c)) c (clients b)\<rparr>))"

text \<open>\<open>close(c.send)\<close>\<close>

definition close_send :: "nat \<Rightarrow> client list \<Rightarrow> client list option" where
  "close_send c cs = (if clClosed (cs ! c) then None else Some (cs[c := (cs ! c)\<lparr>clClosed := True\<rparr>]))"

definition run_unregister :: "Broker \<Rightarrow> Broker option" where
  "run_unregister b =
     (case unregister b of
        [] \<Rightarrow> Some b
      | c # cs \<Rightarrow>
          (let b1 = b\<lparr>unregister := cs\<rparr>; i = clID (conns b ! c)
           in case map_of (clients b) i of
                None \<Rightarrow> Some b1
              | Some _ \<Rightarrow>
                  map_option (\<lambda>cs'. b1\<lparr>clients := AList.delete i (clients b), conns := cs'\<rparr>)
                    (close_send c (conns b))))"

text \<open>The \<open>select\<close> with a \<open>default\<close>: an event for a client whose 64 places are taken is dropped.\<close>

definition try_send :: "Event \<Rightarrow> nat \<Rightarrow> client list \<Rightarrow> client list option" where
  "try_send e c cs =
     (if clClosed (cs ! c) then None
      else if length (clSend (cs ! c)) < 64
      then Some (cs[c := (cs ! c)\<lparr>clSend := clSend (cs ! c) @ [e]\<rparr>])
      else Some cs)"

fun send_all :: "Event \<Rightarrow> nat list \<Rightarrow> client list \<Rightarrow> client list option" where
  "send_all e [] cs = Some cs"
| "send_all e (c # ds) cs = (case try_send e c cs of None \<Rightarrow> None | Some cs' \<Rightarrow> send_all e ds cs')"

definition run_broadcast :: "(nat \<Rightarrow> int) \<Rightarrow> Broker \<Rightarrow> Broker option" where
  "run_broadcast rank b =
     (case broadcast b of
        [] \<Rightarrow> Some b
      | e # es \<Rightarrow>
          map_option (\<lambda>cs. b\<lparr>broadcast := es, conns := cs\<rparr>)
            (send_all e (visit rank (map snd (clients b))) (conns b)))"

definition run_heartbeat :: "Broker \<Rightarrow> Broker" where
  "run_heartbeat b = Broadcast heartbeat b"

section \<open>The handler of a connection\<close>

text \<open>\<open>ServeHTTP\<close>: without a flusher the answer is 500 and nothing is registered.\<close>

definition serve_start :: "bool \<Rightarrow> string \<Rightarrow> Broker \<Rightarrow> nat option \<times> Broker" where
  "serve_start flusher newid b =
     (if \<not> flusher then (Some 500, b)
      else (None, b\<lparr>conns := conns b @
        [\<lparr>clID = newid, clSend = [], clClosed = False, clStage = Registering, clWritten = []\<rparr>]\<rparr>))"

definition set_stage :: "nat \<Rightarrow> stage \<Rightarrow> Broker \<Rightarrow> Broker" where
  "set_stage c g b = b\<lparr>conns := (conns b)[c := (conns b ! c)\<lparr>clStage := g\<rparr>]\<rparr>"

text \<open>\<open>b.register <- c\<close> and \<open>b.unregister <- c\<close> block while 16 wait: \<open>None\<close> is "not yet".\<close>

definition serve_register :: "nat \<Rightarrow> Broker \<Rightarrow> Broker option" where
  "serve_register c b =
     (if length (register b) < 16 then Some (set_stage c Streaming (b\<lparr>register := register b @ [c]\<rparr>)) else None)"

definition serve_unregister :: "nat \<Rightarrow> Broker \<Rightarrow> Broker option" where
  "serve_unregister c b =
     (if length (unregister b) < 16 then Some (set_stage c Gone (b\<lparr>unregister := unregister b @ [c]\<rparr>)) else None)"

text \<open>\<open>evt, ok := <-c.send\<close>: an event is written, a closed and drained channel ends the loop, an
  open and empty one blocks.\<close>

definition serve_receive :: "nat \<Rightarrow> Broker \<Rightarrow> Broker option" where
  "serve_receive c b =
     (case clSend (conns b ! c) of
        e # es \<Rightarrow> Some (b\<lparr>conns := (conns b)[c := (conns b ! c)\<lparr>clSend := es, clWritten := clWritten (conns b ! c) @ [e]\<rparr>]\<rparr>)
      | [] \<Rightarrow> if clClosed (conns b ! c) then Some (set_stage c Leaving b) else None)"

definition nl :: string where "nl = [CHR 0x0A]"

text \<open>What is written for an event: \<open>fmt.Fprintf(w, "event: %s\\ndata: %s\\n\\n", ..)\<close>.\<close>

definition frame :: "Event \<Rightarrow> string" where
  "frame e = ''event: '' @ evType e @ nl @ ''data: '' @ evData e @ nl @ nl"

definition response_body :: "client \<Rightarrow> string" where
  "response_body c = concat (map frame (clWritten c))"

end
