(* ===== verification/Go_Text.thy ===== *)
theory Go_Text
  imports Go_Strings "HOL-Library.Monad_Syntax"
begin

text \<open>
  The parts of \<open>regexp\<close>, \<open>bufio.Scanner\<close> and \<open>time\<close> that the parsers use: leftmost-first
  matching with groups, lines of a text, the timestamp layouts of a system log, and dates.
\<close>

section \<open>Regular expressions\<close>

text \<open>
  A regular expression is a list of items, matched from left to right: one byte of a class,
  as many bytes of a class as possible, the two ends of a group, a choice. Every repetition the
  program writes is of a class of single bytes; the classes are ASCII or complements of ASCII,
  so that matching bytes and matching code points is the same.
\<close>

datatype item =
  One "char \<Rightarrow> bool"
| Many "char \<Rightarrow> bool"
| Open
| Close
| Choice "item list list"

text \<open>\<open>o\<close> holds what was left of the input where each open group began, \<open>g\<close> the groups closed.\<close>

primrec item_weight :: "item \<Rightarrow> nat" and items_weight :: "item list \<Rightarrow> nat" and choices_weight :: "item list list \<Rightarrow> nat" where
  "item_weight (One p) = 1"
| "item_weight (Many p) = 1"
| "item_weight Open = 1"
| "item_weight Close = 1"
| "item_weight (Choice xss) = 1 + choices_weight xss"
| "items_weight [] = 0"
| "items_weight (x # xs) = item_weight x + items_weight xs"
| "choices_weight [] = 0"
| "choices_weight (xs # xss) = 1 + items_weight xs + choices_weight xss"

lemma items_weight_append: "items_weight (xs @ ys) = items_weight xs + items_weight ys"
  by (induction xs) simp_all

function match_items :: "item list \<Rightarrow> string \<Rightarrow> string list \<Rightarrow> string list \<Rightarrow> string list option" where
  "match_items [] s os gs = Some gs"
| "match_items (One p # r) s os gs =
     (case s of [] \<Rightarrow> None | c # t \<Rightarrow> if p c then match_items r t os gs else None)"
| "match_items (Many p # r) s os gs =
     (case s of
        [] \<Rightarrow> match_items r s os gs
      | c # t \<Rightarrow>
          if p c then
            (case match_items (Many p # r) t os gs of Some g \<Rightarrow> Some g | None \<Rightarrow> match_items r s os gs)
          else match_items r s os gs)"
| "match_items (Open # r) s os gs = match_items r s (s # os) gs"
| "match_items (Close # r) s os gs =
     (case os of
        [] \<Rightarrow> None
      | s0 # os' \<Rightarrow> match_items r s os' (gs @ [take (length s0 - length s) s0]))"
| "match_items (Choice [] # r) s os gs = None"
| "match_items (Choice (xs # xss) # r) s os gs =
     (case match_items (xs @ r) s os gs of Some g \<Rightarrow> Some g | None \<Rightarrow> match_items (Choice xss # r) s os gs)"
  by pat_completeness auto
termination
  by (relation "measures [\<lambda>(r, s, os, gs). length s, \<lambda>(r, s, os, gs). items_weight r]")
    (auto simp: items_weight_append)

declare match_items.simps [simp del]

text \<open>\<open>FindStringSubmatch\<close>: the groups of the leftmost match.\<close>

fun find_submatch :: "item list \<Rightarrow> string \<Rightarrow> string list option" where
  "find_submatch r s =
     (case match_items r s [] [] of
        Some gs \<Rightarrow> Some gs
      | None \<Rightarrow> (case s of [] \<Rightarrow> None | c # t \<Rightarrow> find_submatch r t))"

declare find_submatch.simps [simp del]

definition lit :: "string \<Rightarrow> item list" where
  "lit s = map (\<lambda>c. One (\<lambda>x. x = c)) s"

definition some_of :: "(char \<Rightarrow> bool) \<Rightarrow> item list" where
  "some_of p = [One p, Many p]"

definition group :: "item list \<Rightarrow> item list" where
  "group r = [Open] @ r @ [Close]"

definition opt :: "item list \<Rightarrow> item" where
  "opt r = Choice [r, []]"

definition is_space :: "char \<Rightarrow> bool" where
  "is_space c \<longleftrightarrow> c \<in> {CHR 0x09, CHR 0x0A, CHR 0x0C, CHR 0x0D, CHR '' ''}"

definition is_letter :: "char \<Rightarrow> bool" where
  "is_letter c \<longleftrightarrow> (let n = of_char c :: nat in 65 \<le> n \<and> n \<le> 90 \<or> 97 \<le> n \<and> n \<le> 122)"

definition is_word :: "char \<Rightarrow> bool" where
  "is_word c \<longleftrightarrow> is_letter c \<or> is_digit c \<or> c = CHR ''_''"

definition is_dot :: "char \<Rightarrow> bool" where
  "is_dot c \<longleftrightarrow> c \<noteq> CHR 0x0A"

text \<open>Running a matcher over what it was meant for.\<close>

lemma match_lit: "match_items (lit x @ r) (x @ s) os gs = match_items r s os gs"
  by (induction x) (simp_all add: lit_def match_items.simps)

lemma match_lit_None: "\<not> prefix x s \<Longrightarrow> match_items (lit x @ r) s os gs = None"
proof (induction x arbitrary: s)
  case (Cons c x)
  then show ?case by (cases s) (auto simp: lit_def match_items.simps)
qed simp

lemma match_Many:
  assumes "\<forall>c \<in> set x. p c" and "s = [] \<or> \<not> p (hd s)" and "match_items r s os gs = Some g"
  shows "match_items (Many p # r) (x @ s) os gs = Some g"
  using assms
proof (induction x)
  case Nil
  then show ?case by (cases s) (simp_all add: match_items.simps)
qed (simp add: match_items.simps)

lemma match_some_of:
  assumes "x \<noteq> []" and "\<forall>c \<in> set x. p c" and "s = [] \<or> \<not> p (hd s)" and "match_items r s os gs = Some g"
  shows "match_items (some_of p @ r) (x @ s) os gs = Some g"
  using assms match_Many [where x = "tl x" and p = p and s = s and r = r]
  by (cases x) (simp_all add: some_of_def match_items.simps)

lemma match_group_open: "match_items (group x @ r) s os gs = match_items (x @ Close # r) s (s # os) gs"
  by (simp add: group_def match_items.simps)

lemma match_close: "match_items (Close # r) s ((x @ s) # os) gs = match_items r s os (gs @ [x])"
  by (simp add: match_items.simps)

text \<open>A greedy run over bytes that all belong to the class ends at the last point from which
  the rest matches.\<close>

lemma match_Many_last:
  assumes "\<forall>c \<in> set (x @ s). p c" and "match_items r s os gs = Some g"
    and "\<And>t. strict_suffix t s \<Longrightarrow> match_items r t os gs = None"
  shows "match_items (Many p # r) (x @ s) os gs = Some g"
proof -
  have none: "match_items (Many p # r) t os gs = None" if "strict_suffix t s" for t
    using that assms(1)
  proof (induction t)
    case Nil
    then show ?case using assms(3) by (simp add: match_items.simps)
  next
    case (Cons c t)
    then have "strict_suffix t s" by (meson suffix_ConsI suffix_order.le_less_trans suffix_order.order_refl)
    with Cons have "match_items (Many p # r) t os gs = None" by simp
    then show ?case using assms(3) [OF Cons.prems(1)] by (simp add: match_items.simps)
  qed
  have "match_items (Many p # r) s os gs = Some g"
  proof (cases s)
    case (Cons c t)
    then have "strict_suffix t s" by (simp add: strict_suffix_def suffix_def)
    then show ?thesis using none [of t] assms(1,2) Cons by (simp add: match_items.simps)
  qed (use assms(2) in \<open>simp add: match_items.simps\<close>)
  then show ?thesis using assms(1) by (induction x) (simp_all add: match_items.simps)
qed

text \<open>A text an expression with a literal part matches contains that part.\<close>

lemma match_prefix_lit: "match_items (lit x @ r) s os gs = Some g \<Longrightarrow> sublist x s"
  using match_lit_None [of x s r os gs] by (cases "prefix x s") auto

lemma match_needs_lit: "match_items (rs @ lit x @ r) s os gs = Some g \<Longrightarrow> sublist x s"
proof (induction "rs @ lit x @ r" s os gs arbitrary: rs g rule: match_items.induct)
  case (1 s os gs)
  then show ?case by (simp add: lit_def)
next
  case (2 p q s os gs)
  show ?case
  proof (cases rs)
    case Nil
    then show ?thesis using 2 by (metis append_Nil match_prefix_lit)
  next
    case (Cons i js)
    then have "i = One p" "q = js @ lit x @ r" using 2(2) by simp_all
    then show ?thesis using 2(1,3) Cons by (auto simp: match_items.simps sublist_Cons_right split: list.splits if_splits)
  qed
next
  case (3 p q s os gs)
  show ?case
  proof (cases rs)
    case Nil
    then show ?thesis using 3 by (metis append_Nil match_prefix_lit)
  next
    case (Cons i js)
    then have i: "i = Many p" "q = js @ lit x @ r" using 3(5) by simp_all
    show ?thesis
    proof (cases s)
      case Nil
      then show ?thesis using 3(1) [of js] 3(6) Cons i by (simp add: match_items.simps)
    next
      case s: (Cons c t)
      show ?thesis
      proof (cases "p c \<and> match_items (Many p # q) t os gs \<noteq> None")
        case True
        then obtain g' where "match_items (Many p # q) t os gs = Some g'" by auto
        then have "sublist x t" using 3(2) [OF s, of rs] True Cons i 3(5) by simp
        then show ?thesis using s by (simp add: sublist_Cons_right)
      next
        case False
        then have "match_items q s os gs = Some g" using 3(6) s Cons i
          by (auto simp: match_items.simps split: if_splits)
        then show ?thesis using 3(3,4) [OF s] False i by (cases "p c") auto
      qed
    qed
  qed
next
  case (4 q s os gs)
  show ?case
  proof (cases rs)
    case Nil
    then show ?thesis using 4 by (metis append_Nil match_prefix_lit)
  next
    case (Cons i js)
    then show ?thesis using 4(1) [of js] 4(2,3) by (simp add: match_items.simps)
  qed
next
  case (5 q s os gs)
  show ?case
  proof (cases rs)
    case Nil
    then show ?thesis using 5 by (metis append_Nil match_prefix_lit)
  next
    case (Cons i js)
    then show ?thesis using 5(1) [of _ _ js] 5(2,3) by (auto simp: match_items.simps split: list.splits)
  qed
next
  case (6 q s os gs)
  show ?case
  proof (cases rs)
    case Nil
    then show ?thesis using 6 by (metis append_Nil match_prefix_lit)
  next
    case (Cons i js)
    then show ?thesis using 6 by (auto simp: match_items.simps)
  qed
next
  case (7 xs xss q s os gs)
  show ?case
  proof (cases rs)
    case Nil
    then show ?thesis using 7 by (metis append_Nil match_prefix_lit)
  next
    case (Cons i js)
    then have i: "i = Choice (xs # xss)" "q = js @ lit x @ r" using 7(3) by simp_all
    show ?thesis
    proof (cases "match_items (xs @ q) s os gs")
      case None
      then show ?thesis using 7(2) [OF None, of "Choice xss # js"] 7(4) Cons i by (simp add: match_items.simps)
    next
      case (Some g')
      then show ?thesis using 7(1) [of "xs @ js"] 7(4) Cons i by (simp add: match_items.simps)
    qed
  qed
qed

lemma find_needs_lit: "find_submatch (rs @ lit x @ r) s = Some g \<Longrightarrow> sublist x s"
proof (induction s)
  case Nil
  then show ?case by (auto simp: find_submatch.simps split: option.splits dest: match_needs_lit)
next
  case (Cons c s)
  then show ?case
    by (auto simp: find_submatch.simps [of _ "c # s"] sublist_Cons_right split: option.splits dest: match_needs_lit)
qed

lemma find_at_start: "match_items r s [] [] = Some g \<Longrightarrow> find_submatch r s = Some g"
  by (simp add: find_submatch.simps)

section \<open>Lines\<close>

text \<open>\<open>bufio.ScanLines\<close>: the lines of a text, a carriage return before the line feed dropped, and
  the rest after the last line feed when there is one.\<close>

definition drop_cr :: "string \<Rightarrow> string" where
  "drop_cr s = (if s \<noteq> [] \<and> last s = CHR 0x0D then butlast s else s)"

fun raw_lines :: "string \<Rightarrow> string list" where
  "raw_lines [] = []"
| "raw_lines (c # s) =
     (if c = CHR 0x0A then [] # raw_lines s
      else (case raw_lines s of [] \<Rightarrow> [[c]] | l # ls \<Rightarrow> (c # l) # ls))"

definition scan_lines :: "string \<Rightarrow> string list" where
  "scan_lines s = map drop_cr (raw_lines s)"

definition MaxScanTokenSize :: nat where "MaxScanTokenSize = 64 * 1024"

text \<open>\<open>Scan\<close> stops at a line that does not fit its buffer: the tokens before it, and whether it
  failed.\<close>

definition scan_text :: "string \<Rightarrow> string list \<times> bool" where
  "scan_text s =
     (let ls = raw_lines s; ok = takeWhile (\<lambda>l. length l < MaxScanTokenSize) ls
      in (map drop_cr ok, length ok < length ls))"

text \<open>A text that ends with a line feed, or is empty.\<close>

definition complete :: "string \<Rightarrow> bool" where
  "complete s \<longleftrightarrow> s = [] \<or> last s = CHR 0x0A"

lemma raw_lines_line: "CHR 0x0A \<notin> set l \<Longrightarrow> raw_lines (l @ CHR 0x0A # s) = l # raw_lines s"
  by (induction l) auto

lemma raw_lines_append: "complete a \<Longrightarrow> raw_lines (a @ b) = raw_lines a @ raw_lines b"
proof (induction a)
  case (Cons c a)
  show ?case
  proof (cases "a = []")
    case True
    then show ?thesis using Cons.prems by (simp add: complete_def)
  next
    case False
    then have "complete a" using Cons.prems by (simp add: complete_def)
    moreover have "raw_lines a \<noteq> []" using False by (cases a) (auto split: list.split)
    ultimately show ?thesis using Cons.IH by (auto split: list.split)
  qed
qed (simp add: complete_def)

lemma scan_text_fits:
  "\<forall>l \<in> set (raw_lines s). length l < MaxScanTokenSize \<Longrightarrow> scan_text s = (scan_lines s, False)"
  by (simp add: scan_text_def scan_lines_def Let_def takeWhile_eq_all_conv [THEN iffD2])

section \<open>Dates\<close>

text \<open>Days since 1 January 1970 of a date of the proleptic Gregorian calendar; days beyond the end
  of a month run on, as \<open>time.Date\<close> has it.\<close>

definition is_leap :: "int \<Rightarrow> bool" where
  "is_leap y \<longleftrightarrow> y mod 4 = 0 \<and> (y mod 100 \<noteq> 0 \<or> y mod 400 = 0)"

definition month_days :: "int \<Rightarrow> int list" where
  "month_days y = [31, if is_leap y then 29 else 28, 31, 30, 31, 30, 31, 31, 30, 31, 30, 31]"

definition civil_days :: "int \<Rightarrow> nat \<Rightarrow> int \<Rightarrow> int" where
  "civil_days y m d =
     365 * (y - 1) + (y - 1) div 4 - (y - 1) div 100 + (y - 1) div 400 - 719162
       + sum_list (take (m - 1) (month_days y)) + d - 1"

record stamp =
  st_month :: nat
  st_day :: int
  st_hour :: int
  st_min :: int
  st_sec :: int

text \<open>The local time zone: the offset of a wall-clock time, in seconds, and the year of an
  instant.\<close>

record location =
  zone_offset :: "int \<Rightarrow> int"
  year_of :: "time \<Rightarrow> int"

definition Date_local :: "location \<Rightarrow> int \<Rightarrow> stamp \<Rightarrow> time" where
  "Date_local loc y t =
     (let wall = civil_days y (st_month t) (st_day t) * 86400 + st_hour t * 3600 + st_min t * 60 + st_sec t
      in time_Unix (wall - zone_offset loc wall))"

section \<open>Timestamps without a year\<close>

text \<open>
  \<open>time.Parse\<close> with the layouts \<open>"Jan  2 15:04:05"\<close> and \<open>"Jan _2 15:04:05"\<close>, piece by piece as the
  library reads them: the name of the month in any case, a run of blanks for a run of blanks,
  one or two digits for the day and the hour, two for the minute and the second. A fraction of a
  second, which the library would accept at the end, is left out: the program parses a group of
  its own expression, which ends with the seconds.
\<close>

definition short_months :: "string list" where
  "short_months = [''Jan'', ''Feb'', ''Mar'', ''Apr'', ''May'', ''Jun'', ''Jul'', ''Aug'', ''Sep'', ''Oct'', ''Nov'', ''Dec'']"

definition parse_month :: "string \<Rightarrow> (nat \<times> string) option" where
  "parse_month s =
     map_option (\<lambda>(i, m). (i + 1, drop 3 s))
       (find (\<lambda>(i, m). 3 \<le> length s \<and> map to_lower_ascii (take 3 s) = map to_lower_ascii m) (enumerate 0 short_months))"

definition skip_blanks :: "string \<Rightarrow> string option" where
  "skip_blanks s =
     (if s \<noteq> [] \<and> hd s \<noteq> CHR '' '' then None else Some (dropWhile (\<lambda>c. c = CHR '' '') s))"

definition skip_char :: "char \<Rightarrow> string \<Rightarrow> string option" where
  "skip_char c s = (case s of [] \<Rightarrow> None | x # t \<Rightarrow> if x = c then Some t else None)"

definition getnum :: "bool \<Rightarrow> string \<Rightarrow> (int \<times> string) option" where
  "getnum fixed s =
     (case s of
        [] \<Rightarrow> None
      | a # t \<Rightarrow>
          if \<not> is_digit a then None
          else (case t of
             b # u \<Rightarrow> if is_digit b then Some (int (digit_val a * 10 + digit_val b), u)
                      else if fixed then None else Some (int (digit_val a), t)
           | [] \<Rightarrow> if fixed then None else Some (int (digit_val a), t)))"

definition below :: "int \<Rightarrow> int \<times> string \<Rightarrow> (int \<times> string) option" where
  "below n r = (if fst r < n then Some r else None)"

definition parse_stamp :: "bool \<Rightarrow> string \<Rightarrow> stamp option" where
  "parse_stamp under_day s = do {
     (mo, s1) \<leftarrow> parse_month s;
     s2 \<leftarrow> skip_blanks s1;
     (d, s3) \<leftarrow> getnum False (if under_day \<and> s2 \<noteq> [] \<and> hd s2 = CHR '' '' then tl s2 else s2);
     s4 \<leftarrow> skip_blanks s3;
     (h, s5) \<leftarrow> Option.bind (getnum False s4) (below 24);
     s6 \<leftarrow> skip_char (CHR '':'') s5;
     (mi, s7) \<leftarrow> Option.bind (getnum True s6) (below 60);
     s8 \<leftarrow> skip_char (CHR '':'') s7;
     (sec, s9) \<leftarrow> Option.bind (getnum True s8) (below 60);
     if s9 = [] \<and> 1 \<le> d \<and> d \<le> month_days 0 ! (mo - 1)
     then Some \<lparr>st_month = mo, st_day = d, st_hour = h, st_min = mi, st_sec = sec\<rparr> else None
   }"

end
