(* ===== verification/Security.thy ===== *)
theory Security
  imports Storage_Facts Go_Text
begin

text \<open>
  \<open>internal/security\<close>: the incremental parser of the system's authentication log, the security
  snapshot and the count of pending updates. The file and the output of \<open>apt-get\<close> are
  arguments; the local time zone is a parameter.
\<close>

section \<open>The expressions\<close>

definition timestamp_rx :: "item list" where
  "timestamp_rx = group ([One is_word, One is_word, One is_word] @ some_of is_space @ some_of is_digit @
     some_of is_space @ [One is_digit, One is_digit] @ lit '':'' @ [One is_digit, One is_digit] @ lit '':'' @
     [One is_digit, One is_digit])"

definition address_rx :: "item list" where
  "address_rx = group (some_of is_digit @ lit ''.'' @ some_of is_digit @ lit ''.'' @ some_of is_digit @ lit ''.'' @
     some_of is_digit)"

definition user_rx :: "item list" where
  "user_rx = group (some_of (\<lambda>c. \<not> is_space c))"

definition origin_rx :: "item list" where
  "origin_rx = user_rx @ lit '' from '' @ address_rx @ lit '' port '' @ group (some_of is_digit)"

definition reFailed :: "item list" where
  "reFailed = timestamp_rx @ [Many is_dot] @ lit ''Failed password for '' @ [opt (lit ''invalid user '')] @ origin_rx"

definition reAccepted :: "item list" where
  "reAccepted = timestamp_rx @ [Many is_dot] @ lit ''Accepted '' @ [Choice [lit ''password'', lit ''publickey'']] @
     lit '' for '' @ origin_rx"

definition reInvalid :: "item list" where
  "reInvalid = timestamp_rx @ [Many is_dot] @ lit ''Invalid user '' @ origin_rx"

section \<open>One line\<close>

definition parseTimestamp :: "location \<Rightarrow> string \<Rightarrow> int \<Rightarrow> world \<Rightarrow> time \<times> world" where
  "parseTimestamp loc s year w =
     (case parse_stamp False s of
        Some t \<Rightarrow> (Date_local loc year t, w)
      | None \<Rightarrow>
          (case parse_stamp True s of
             Some t \<Rightarrow> (Date_local loc year t, w)
           | None \<Rightarrow> time_Now w))"

definition ssh_event :: "location \<Rightarrow> string \<Rightarrow> string list \<Rightarrow> int \<Rightarrow> world \<Rightarrow> SSHEvent option \<times> world" where
  "ssh_event loc kind m year w =
     (case parseTimestamp loc (m ! 0) year w of
        (ts, w') \<Rightarrow>
          (Some \<lparr>seID = 0, seOccurredAt = ts, seEventType = kind, seUsername = Some (m ! 1),
             seSourceIP = m ! 2, sePort = Some (m ! 3)\<rparr>, w'))"

definition ParseAuthLogLine :: "location \<Rightarrow> string \<Rightarrow> int \<Rightarrow> world \<Rightarrow> SSHEvent option \<times> world" where
  "ParseAuthLogLine loc line year w =
     (case find_submatch reFailed line of
        Some m \<Rightarrow> ssh_event loc ''failed'' m year w
      | None \<Rightarrow>
          (case find_submatch reAccepted line of
             Some m \<Rightarrow> ssh_event loc ''success'' m year w
           | None \<Rightarrow>
               (case find_submatch reInvalid line of
                  Some m \<Rightarrow> ssh_event loc ''invalid_user'' m year w
                | None \<Rightarrow> (None, w))))"

section \<open>The parser\<close>

definition authLogPaths :: "string list" where
  "authLogPaths = [''/var/log/auth.log'', ''/var/log/secure'']"

record Parser =
  logPath :: string
  lastOffset :: nat
  warned :: bool

definition newParser :: "(string \<Rightarrow> bool) \<Rightarrow> Parser" where
  "newParser stat_ok =
     \<lparr>logPath = (case find stat_ok authLogPaths of Some p \<Rightarrow> p | None \<Rightarrow> []), lastOffset = 0, warned = False\<rparr>"

text \<open>What the system gives for the log file: an error of \<open>Open\<close> or \<open>Stat\<close>, one of \<open>Seek\<close>
  with the file's size, or the bytes of the file and the position the scanner has read up to if it stops at an overlong line.\<close>

datatype log_file = OpenFails string | StatFails string | SeekFails string nat | Contents string nat

datatype parse_error = OpenError string | SystemError string | TokenTooLong

fun parse_lines :: "location \<Rightarrow> int \<Rightarrow> string list \<Rightarrow> world \<Rightarrow> world" where
  "parse_lines loc year [] w = w"
| "parse_lines loc year (l # ls) w =
     (case ParseAuthLogLine loc l year w of
        (Some e, w') \<Rightarrow> parse_lines loc year ls (snd (InsertSSHEvent e w'))
      | (None, w') \<Rightarrow> parse_lines loc year ls w')"

text \<open>A file shorter than what was read of it has been rotated: start over.\<close>

definition start_offset :: "nat \<Rightarrow> Parser \<Rightarrow> nat" where
  "start_offset bytes p = (if bytes < lastOffset p then 0 else lastOffset p)"

definition parse :: "location \<Rightarrow> log_file \<Rightarrow> Parser \<Rightarrow> world \<Rightarrow> parse_error option \<times> Parser \<times> world" where
  "parse loc f p w =
     (if logPath p = [] then (None, p\<lparr>warned := True\<rparr>, w)
      else case f of
        OpenFails e \<Rightarrow> (Some (OpenError e), p, w)
      | StatFails e \<Rightarrow> (Some (SystemError e), p, w)
      | SeekFails e n \<Rightarrow> (Some (SystemError e), p\<lparr>lastOffset := start_offset n p\<rparr>, w)
      | Contents bytes stopped \<Rightarrow>
          (case time_Now w of (now, w1) \<Rightarrow>
             case scan_text (drop (start_offset (length bytes) p) bytes) of (lines, failed) \<Rightarrow>
               (if failed then Some TokenTooLong else None,
                p\<lparr>lastOffset := if failed then stopped else length bytes\<rparr>,
                parse_lines loc (year_of loc now) lines w1)))"

section \<open>Pending updates\<close>

fun match_at :: "string \<Rightarrow> string \<Rightarrow> bool" where
  "match_at s [] = True"
| "match_at [] (b # sub) = False"
| "match_at (a # s) (b # sub) =
     ((if 65 \<le> (of_char a :: nat) \<and> (of_char a :: nat) \<le> 90 then char_of (of_char a + 32 :: nat) else a) = b
       \<and> match_at s sub)"

definition findCI :: "string \<Rightarrow> string \<Rightarrow> bool" where
  "findCI s sub = list_ex (\<lambda>i. match_at (drop i s) sub) [0 ..< length s + 1 - length sub]"

definition containsCI :: "string \<Rightarrow> string \<Rightarrow> bool" where
  "containsCI s sub \<longleftrightarrow> length sub \<le> length s \<and> findCI s sub"

text \<open>The output of \<open>apt-get\<close>, when it ran with success; the scanner ends at an overlong line.\<close>

definition checkPendingUpdates :: "string option \<Rightarrow> int \<times> int" where
  "checkPendingUpdates out =
     (case out of
        None \<Rightarrow> (-1, -1)
      | Some text \<Rightarrow>
          (let lines = fst (scan_text text)
           in (int (length lines), int (length (filter (\<lambda>l. containsCI l ''security'') lines)))))"

section \<open>The snapshot\<close>

record SecuritySnapshot =
  ssCollectedAt :: time
  ssRecentFailed :: "SSHEvent list"
  ssRecentSuccess :: "SSHEvent list"
  ssTopFailedIPs :: "IPCount list"
  ssPendingUpdates :: int
  ssPendingSecUpdates :: int
  ssLogAvailable :: bool

fun classify :: "SSHEvent list \<Rightarrow> SecuritySnapshot \<Rightarrow> SecuritySnapshot" where
  "classify [] s = s"
| "classify (e # es) s =
     classify es
       (if seEventType e = ''failed'' \<or> seEventType e = ''invalid_user''
        then s\<lparr>ssRecentFailed := ssRecentFailed s @ [e]\<rparr>
        else if seEventType e = ''success'' then s\<lparr>ssRecentSuccess := ssRecentSuccess s @ [e]\<rparr>
        else s)"

definition Snapshot :: "Parser \<Rightarrow> string option \<Rightarrow> world \<Rightarrow> (SecuritySnapshot \<times> db_error option) \<times> world" where
  "Snapshot p apt w =
     (case time_Now w of (now, w1) \<Rightarrow>
        let s = \<lparr>ssCollectedAt = now, ssRecentFailed = [], ssRecentSuccess = [], ssTopFailedIPs = [],
                 ssPendingUpdates = 0, ssPendingSecUpdates = 0, ssLogAvailable = (logPath p \<noteq> [])\<rparr>
        in case RecentSSHEvents 50 w1 of
             ((_, Some e), w2) \<Rightarrow> ((s, Some e), w2)
           | ((events, None), w2) \<Rightarrow>
               (case time_Now w2 of (now2, w3) \<Rightarrow>
                  let s1 = classify events s
                  in case FailedSSHByIP (now2 - 24 * Hour) w3 of
                       ((_, Some e), w4) \<Rightarrow> ((s1, Some e), w4)
                     | ((ips, None), w4) \<Rightarrow>
                         (case checkPendingUpdates apt of
                            (n, sec) \<Rightarrow>
                              ((s1\<lparr>ssTopFailedIPs := ips, ssPendingUpdates := n, ssPendingSecUpdates := sec\<rparr>, None), w4))))"

end
