(* ===== verification/Tunnel.thy ===== *)
theory Tunnel
  imports Storage_Facts Go_Text
begin

text \<open>
  \<open>internal/tunnel\<close>: detecting the cloudflared process, naming its tunnel, and recording the
  changes of its state. What the process library and the command \<open>cloudflared --version\<close> answer
  are arguments.
\<close>

section \<open>Data\<close>

text \<open>A process: \<open>None\<close> where the library returns an error.\<close>

record proc =
  prPid :: int
  prName :: "string option"
  prCreateTime :: "int option"
  prCmdline :: "string list option"

record Status =
  tsCollectedAt :: time
  tsRunning :: bool
  tsPID :: int
  tsUptimeSeconds :: int
  tsTunnelName :: string
  tsVersion :: string
  tsRecentEvents :: "TunnelEvent list"

record Detector =
  lastRunning :: bool
  cachedVersion :: string
  versionDetected :: bool

definition NewDetector :: Detector where
  "NewDetector = \<lparr>lastRunning = False, cachedVersion = [], versionDetected = False\<rparr>"

section \<open>Names and versions\<close>

fun TunnelNameFromArgs :: "string list \<Rightarrow> string" where
  "TunnelNameFromArgs [] = []"
| "TunnelNameFromArgs (arg # args) =
     (if arg = ''--name'' \<and> args \<noteq> [] then hd args
      else if arg = ''run'' \<and> args \<noteq> [] then hd args
      else TunnelNameFromArgs args)"

text \<open>No letter of the name looked for is the lower case of a letter outside ASCII, so that
  lowering the ASCII letters is enough.\<close>

definition is_cloudflared :: "proc \<Rightarrow> bool" where
  "is_cloudflared p =
     (case prName p of None \<Rightarrow> False | Some n \<Rightarrow> sublist ''cloudflared'' (map to_lower_ascii n))"

definition reVersion :: "item list" where
  "reVersion = lit ''cloudflared version '' @ group (some_of (\<lambda>c. \<not> is_space c))"

definition getVersion :: "string option \<Rightarrow> Detector \<Rightarrow> string \<times> Detector" where
  "getVersion out d =
     (if versionDetected d then (cachedVersion d, d)
      else
        (let v = (case out of
                    None \<Rightarrow> cachedVersion d
                  | Some text \<Rightarrow> (case find_submatch reVersion text of Some m \<Rightarrow> m ! 0 | None \<Rightarrow> cachedVersion d))
         in (v, d\<lparr>versionDetected := True, cachedVersion := v\<rparr>)))"

section \<open>Collecting\<close>

definition whole_seconds :: "int \<Rightarrow> int" where
  "whole_seconds d = float_trunc (duration_seconds d)"

definition process_status :: "string option \<Rightarrow> proc \<Rightarrow> Status \<Rightarrow> Detector \<Rightarrow> world \<Rightarrow> Status \<times> Detector \<times> world" where
  "process_status version p s d w =
     (let s1 = s\<lparr>tsRunning := True, tsPID := prPid p\<rparr>;
          (s2, w2) = (case prCreateTime p of
                        None \<Rightarrow> (s1, w)
                      | Some ct \<Rightarrow>
                          (case time_Now w of (now, w1) \<Rightarrow>
                             (s1\<lparr>tsUptimeSeconds := whole_seconds (now - ct * Millisecond)\<rparr>, w1)));
          s3 = (case prCmdline p of None \<Rightarrow> s2 | Some args \<Rightarrow> s2\<lparr>tsTunnelName := TunnelNameFromArgs args\<rparr>);
          (v, d1) = getVersion version d
      in (s3\<lparr>tsVersion := v\<rparr>, d1, w2))"

text \<open>The event of a change, when there is one.\<close>

definition transition :: "bool \<Rightarrow> bool \<Rightarrow> time \<Rightarrow> TunnelEvent option" where
  "transition was is_now now =
     (if was \<and> \<not> is_now then Some \<lparr>teID = 0, teOccurredAt = now, teEventType = ''disconnected'', teDetail = None\<rparr>
      else if \<not> was \<and> is_now then Some \<lparr>teID = 0, teOccurredAt = now, teEventType = ''connected'', teDetail = None\<rparr>
      else None)"

definition Collect :: "proc list option \<Rightarrow> string option \<Rightarrow> Detector \<Rightarrow> world \<Rightarrow> Status \<times> Detector \<times> world" where
  "Collect procs version d w =
     (case time_Now w of (t0, w0) \<Rightarrow>
        let s = \<lparr>tsCollectedAt = t0, tsRunning = False, tsPID = 0, tsUptimeSeconds = 0, tsTunnelName = [],
                 tsVersion = [], tsRecentEvents = []\<rparr>;
            (s1, d1, w1) = (case find is_cloudflared (case procs of None \<Rightarrow> [] | Some ps \<Rightarrow> ps) of
                              None \<Rightarrow> (s, d, w0)
                            | Some p \<Rightarrow> process_status version p s d w0);
            d2 = d1\<lparr>lastRunning := tsRunning s1\<rparr>
        in case time_Now w1 of (now, w2) \<Rightarrow>
             let w3 = (case transition (lastRunning d1) (tsRunning s1) now of
                         None \<Rightarrow> w2
                       | Some e \<Rightarrow> snd (InsertTunnelEvent e w2));
                 ((events, err), w4) = RecentTunnelEvents 10 w3
             in (s1\<lparr>tsRecentEvents := events\<rparr>, d2, w4))"

text \<open>Polling: the answers of the process library and of the command, one pair per poll.\<close>

fun polls :: "(proc list option \<times> string option) list \<Rightarrow> Detector \<Rightarrow> world \<Rightarrow> Detector \<times> world" where
  "polls [] d w = (d, w)"
| "polls ((procs, version) # rest) d w =
     (case Collect procs version d w of (s, d', w') \<Rightarrow> polls rest d' w')"

end
