(* ===== verification/Services.thy ===== *)
theory Services
  imports Go_Text
begin

text \<open>
  \<open>internal/services\<close>: the state of systemd services, read off the output of \<open>systemctl show\<close>. The
  command's output is an argument, as is the library's reading of a timestamp with a zone name.
\<close>

section \<open>Data\<close>

record ServiceStatus =
  svName :: string
  svActive :: string
  svSubState :: string
  svLoadState :: string
  svRestartCount :: int
  svSince :: "time option"

record ServicesSnapshot =
  vsCollectedAt :: time
  vsServices :: "ServiceStatus list"
  vsSystemdAvailable :: bool

definition DefaultServices :: "string list" where
  "DefaultServices = [''nginx'', ''apache2'', ''postgresql'', ''mysql'', ''redis'',
     ''docker'', ''ssh'', ''sshd'', ''cloudflared'', ''fail2ban'']"

definition services_NewMonitor :: "string list \<Rightarrow> string list" where
  "services_NewMonitor services = (if services = [] then DefaultServices else services)"

section \<open>One service\<close>

definition service_line :: "(string \<Rightarrow> time option) \<Rightarrow> string \<Rightarrow> ServiceStatus \<Rightarrow> ServiceStatus" where
  "service_line since line svc =
     (case Cut line (CHR ''='') of (k, v, ok) \<Rightarrow>
        if \<not> ok then svc
        else if k = ''ActiveState'' then svc\<lparr>svActive := v\<rparr>
        else if k = ''SubState'' then svc\<lparr>svSubState := v\<rparr>
        else if k = ''LoadState'' then svc\<lparr>svLoadState := v\<rparr>
        else if k = ''NRestarts'' then svc\<lparr>svRestartCount := fst (Atoi v)\<rparr>
        else if k = ''ActiveEnterTimestamp'' then
          (if v \<noteq> [] \<and> v \<noteq> ''n/a'' then
             (case since v of Some t \<Rightarrow> svc\<lparr>svSince := Some t\<rparr> | None \<Rightarrow> svc)
           else svc)
        else svc)"

definition new_status :: "string \<Rightarrow> ServiceStatus" where
  "new_status name = \<lparr>svName = name, svActive = [], svSubState = [], svLoadState = [], svRestartCount = 0, svSince = None\<rparr>"

text \<open>The output of the command, or \<open>None\<close> when it failed; the flag is the scanner's error.\<close>

definition queryService :: "(string \<Rightarrow> time option) \<Rightarrow> string option \<Rightarrow> string \<Rightarrow> ServiceStatus \<times> bool" where
  "queryService since out name =
     (case out of
        None \<Rightarrow> ((new_status name)\<lparr>svActive := ''unknown''\<rparr>, False)
      | Some text \<Rightarrow>
          (case scan_text text of (lines, failed) \<Rightarrow> (fold (service_line since) lines (new_status name), failed)))"

section \<open>All services\<close>

fun collect_services :: "(string \<Rightarrow> time option) \<Rightarrow> (string \<Rightarrow> string option) \<Rightarrow> string list \<Rightarrow> ServiceStatus list" where
  "collect_services since output [] = []"
| "collect_services since output (name # names) =
     (case queryService since (output name) name of
        (svc, failed) \<Rightarrow> if failed then collect_services since output names
                       else svc # collect_services since output names)"

definition services_Collect :: "(string \<Rightarrow> time option) \<Rightarrow> bool \<Rightarrow> (string \<Rightarrow> string option) \<Rightarrow> string list \<Rightarrow> time \<Rightarrow> ServicesSnapshot" where
  "services_Collect since systemctl output services now =
     (if \<not> systemctl then \<lparr>vsCollectedAt = now, vsServices = [], vsSystemdAvailable = False\<rparr>
      else \<lparr>vsCollectedAt = now, vsServices = collect_services since output services, vsSystemdAvailable = True\<rparr>)"

section \<open>Reading back what systemctl prints\<close>

text \<open>The properties the program asks for, one line each.\<close>

definition print_properties :: "(string \<times> string) list \<Rightarrow> string" where
  "print_properties kvs = concat (map (\<lambda>(k, v). k @ ''='' @ v @ [CHR 0x0A]) kvs)"

definition property_ok :: "string \<times> string \<Rightarrow> bool" where
  "property_ok kv \<longleftrightarrow> CHR ''='' \<notin> set (fst kv) \<and> CHR 0x0A \<notin> set (fst kv @ snd kv) \<and> CHR 0x0D \<notin> set (snd kv) \<and>
     length (fst kv) + length (snd kv) + 1 < MaxScanTokenSize"

lemma service_line_property:
  "property_ok (k, v) \<Longrightarrow> service_line since (k @ ''='' @ v) svc =
     (if k = ''ActiveState'' then svc\<lparr>svActive := v\<rparr>
      else if k = ''SubState'' then svc\<lparr>svSubState := v\<rparr>
      else if k = ''LoadState'' then svc\<lparr>svLoadState := v\<rparr>
      else if k = ''NRestarts'' then svc\<lparr>svRestartCount := fst (Atoi v)\<rparr>
      else if k = ''ActiveEnterTimestamp'' \<and> v \<noteq> [] \<and> v \<noteq> ''n/a'' \<and> since v \<noteq> None then svc\<lparr>svSince := since v\<rparr>
      else svc)"
proof -
  assume "property_ok (k, v)"
  then have "Cut (k @ ''='' @ v) (CHR ''='') = (k, v, True)"
    using Cut_append [of "CHR ''=''" k v] by (simp add: property_ok_def)
  then show ?thesis by (auto simp: service_line_def split: option.split)
qed

lemma print_lines:
  "\<forall>kv \<in> set kvs. property_ok kv \<Longrightarrow>
   raw_lines (print_properties kvs) = map (\<lambda>(k, v). k @ ''='' @ v) kvs"
proof (induction kvs)
  case (Cons kv kvs)
  obtain k v where kv: "kv = (k, v)" by (cases kv)
  with Cons.prems have "CHR 0x0A \<notin> set (k @ ''='' @ v)" by (simp add: property_ok_def)
  from raw_lines_line [OF this, of "print_properties kvs"] Cons kv show ?case by (simp add: print_properties_def)
qed (simp add: print_properties_def)

lemma drop_cr_property: "property_ok (k, v) \<Longrightarrow> drop_cr (k @ ''='' @ v) = k @ ''='' @ v"
  by (cases v rule: rev_cases) (auto simp: drop_cr_def property_ok_def)

lemma scan_properties:
  assumes "\<forall>kv \<in> set kvs. property_ok kv"
  shows "scan_text (print_properties kvs) = (map (\<lambda>(k, v). k @ ''='' @ v) kvs, False)"
proof -
  have "\<forall>l \<in> set (raw_lines (print_properties kvs)). length l < MaxScanTokenSize"
    using assms by (auto simp: print_lines property_ok_def)
  moreover have "map drop_cr (map (\<lambda>(k, v). k @ ''='' @ v) kvs) = map (\<lambda>(k, v). k @ ''='' @ v) kvs"
    using assms drop_cr_property by (auto simp del: append_Cons)
  ultimately show ?thesis using print_lines [OF assms] by (simp add: scan_text_fits scan_lines_def)
qed

text \<open>The value of a field after the lines, given its value before.\<close>

lemma fold_field:
  assumes step: "\<And>k v svc. property_ok (k, v) \<Longrightarrow>
      F (service_line since (k @ ''='' @ v) svc) = (if k = key then g v (F svc) else F svc)"
    and "\<forall>kv \<in> set kvs. property_ok kv" and "distinct (map fst kvs)"
  shows "F (fold (service_line since) (map (\<lambda>(k, v). k @ ''='' @ v) kvs) svc) =
    (case map_of kvs key of Some v \<Rightarrow> g v (F svc) | None \<Rightarrow> F svc)"
  using assms(2,3)
proof (induction kvs arbitrary: svc)
  case (Cons kv kvs)
  obtain k v where kv: "kv = (k, v)" by (cases kv)
  have "map_of kvs k = None" using Cons.prems(2) kv by (simp add: map_of_eq_None_iff)
  moreover have "property_ok (k, v)" using Cons.prems(1) kv by simp
  ultimately show ?case using Cons step [of k v svc] by (auto simp: kv split: option.split)
qed simp

lemma status_fields:
  assumes "\<forall>kv \<in> set kvs. property_ok kv" and "distinct (map fst kvs)"
  shows "svActive (fold (service_line since) (map (\<lambda>(k, v). k @ ''='' @ v) kvs) svc) =
      (case map_of kvs ''ActiveState'' of Some v \<Rightarrow> v | None \<Rightarrow> svActive svc)"
    and "svSubState (fold (service_line since) (map (\<lambda>(k, v). k @ ''='' @ v) kvs) svc) =
      (case map_of kvs ''SubState'' of Some v \<Rightarrow> v | None \<Rightarrow> svSubState svc)"
    and "svLoadState (fold (service_line since) (map (\<lambda>(k, v). k @ ''='' @ v) kvs) svc) =
      (case map_of kvs ''LoadState'' of Some v \<Rightarrow> v | None \<Rightarrow> svLoadState svc)"
    and "svRestartCount (fold (service_line since) (map (\<lambda>(k, v). k @ ''='' @ v) kvs) svc) =
      (case map_of kvs ''NRestarts'' of Some v \<Rightarrow> fst (Atoi v) | None \<Rightarrow> svRestartCount svc)"
    and "svSince (fold (service_line since) (map (\<lambda>(k, v). k @ ''='' @ v) kvs) svc) =
      (case map_of kvs ''ActiveEnterTimestamp'' of
         Some v \<Rightarrow> if v \<noteq> [] \<and> v \<noteq> ''n/a'' \<and> since v \<noteq> None then since v else svSince svc
       | None \<Rightarrow> svSince svc)"
    and "svName (fold (service_line since) (map (\<lambda>(k, v). k @ ''='' @ v) kvs) svc) = svName svc"
proof -
  note fold = fold_field [OF _ assms, where since = since]
  show "svActive (fold (service_line since) (map (\<lambda>(k, v). k @ ''='' @ v) kvs) svc) =
      (case map_of kvs ''ActiveState'' of Some v \<Rightarrow> v | None \<Rightarrow> svActive svc)"
    by (rule fold, subst service_line_property, assumption, simp)
  show "svSubState (fold (service_line since) (map (\<lambda>(k, v). k @ ''='' @ v) kvs) svc) =
      (case map_of kvs ''SubState'' of Some v \<Rightarrow> v | None \<Rightarrow> svSubState svc)"
    by (rule fold, subst service_line_property, assumption, simp)
  show "svLoadState (fold (service_line since) (map (\<lambda>(k, v). k @ ''='' @ v) kvs) svc) =
      (case map_of kvs ''LoadState'' of Some v \<Rightarrow> v | None \<Rightarrow> svLoadState svc)"
    by (rule fold, subst service_line_property, assumption, simp)
  show "svRestartCount (fold (service_line since) (map (\<lambda>(k, v). k @ ''='' @ v) kvs) svc) =
      (case map_of kvs ''NRestarts'' of Some v \<Rightarrow> fst (Atoi v) | None \<Rightarrow> svRestartCount svc)"
    by (rule fold, subst service_line_property, assumption, simp)
  show "svSince (fold (service_line since) (map (\<lambda>(k, v). k @ ''='' @ v) kvs) svc) =
      (case map_of kvs ''ActiveEnterTimestamp'' of
         Some v \<Rightarrow> if v \<noteq> [] \<and> v \<noteq> ''n/a'' \<and> since v \<noteq> None then since v else svSince svc
       | None \<Rightarrow> svSince svc)"
    by (rule fold, subst service_line_property, assumption, simp)
  have "svName (fold (service_line since) (map (\<lambda>(k, v). k @ ''='' @ v) kvs) svc) =
      (case map_of kvs [] of Some v \<Rightarrow> svName svc | None \<Rightarrow> svName svc)"
    by (rule fold [where g = "\<lambda>v n. n"], subst service_line_property, assumption, simp)
  then show "svName (fold (service_line since) (map (\<lambda>(k, v). k @ ''='' @ v) kvs) svc) = svName svc"
    by (simp split: option.splits)
qed

definition or_empty :: "string option \<Rightarrow> string" where
  "or_empty x = (case x of Some v \<Rightarrow> v | None \<Rightarrow> [])"

text \<open>
  C38: reading back the properties of a service. Printed one to a line in any order, each at most
  once, with values that fit a line, every property of the status gets the value printed for
  it, and those that are not printed keep the zero value; the restart count printed in decimal
  comes back as the number.
\<close>

theorem service_properties_read_back:
  assumes "\<forall>kv \<in> set kvs. property_ok kv" and "distinct (map fst kvs)"
    and "map_of kvs ''NRestarts'' = Some (format_int n)" and "is_int64 n"
  shows "queryService since (Some (print_properties kvs)) name =
    (\<lparr>svName = name, svActive = or_empty (map_of kvs ''ActiveState''),
      svSubState = or_empty (map_of kvs ''SubState''), svLoadState = or_empty (map_of kvs ''LoadState''),
      svRestartCount = n,
      svSince = (case map_of kvs ''ActiveEnterTimestamp'' of
         Some v \<Rightarrow> if v = [] \<or> v = ''n/a'' then None else since v | None \<Rightarrow> None)\<rparr>, False)"
proof -
  let ?svc = "fold (service_line since) (map (\<lambda>(k, v). k @ ''='' @ v) kvs) (new_status name)"
  have "queryService since (Some (print_properties kvs)) name = (?svc, False)"
    unfolding queryService_def option.case scan_properties [OF assms(1)] prod.case ..
  moreover have "fst (Atoi (format_int n)) = n" by (simp add: Atoi_def ParseInt_format_int [OF assms(4)])
  moreover note status_fields [OF assms(1,2), of since "new_status name"]
  ultimately show ?thesis using assms(3)
    by (intro prod_eqI ServiceStatus.equality) (auto simp: new_status_def or_empty_def split: option.splits)
qed

lemma service_properties_read_back_witness:
  "fst (queryService (\<lambda>_. None) (Some (print_properties [(''ActiveState'', ''active''), (''NRestarts'', format_int 3)])) ''ssh'') =
   \<lparr>svName = ''ssh'', svActive = ''active'', svSubState = [], svLoadState = [], svRestartCount = 3, svSince = None\<rparr>"
proof -
  let ?kvs = "[(''ActiveState'', ''active''), (''NRestarts'', format_int 3)]"
  have "format_int 3 = ''3''" by code_simp
  then have "\<forall>kv \<in> set ?kvs. property_ok kv" by (simp add: property_ok_def MaxScanTokenSize_def)
  from service_properties_read_back [OF this, of 3 "\<lambda>_. None" "''ssh''"] show ?thesis
    by (simp add: is_int64_def or_empty_def)
qed

end
