(* ===== verification/Metrics.thy ===== *)
theory Metrics
  imports Go_Strings
begin

text \<open>
  \<open>internal/metrics\<close>: the snapshots of the system, of the process itself and of the network
  connections. What the library that reads the system's counters answers is an argument: \<open>None\<close>
  where it returns an error. Byte counters are 64-bit words, whose subtraction wraps.
\<close>

section \<open>Rates of counters\<close>

text \<open>\<open>uint64(f)\<close> drops the fraction; what it gives for a value that does not fit is left to the
  implementation, here the parameter \<open>other\<close>.\<close>

definition float_uint64 :: "(float64 \<Rightarrow> 64 word) \<Rightarrow> float64 \<Rightarrow> 64 word" where
  "float_uint64 other x =
     (case x of
        Fin q \<Rightarrow> if - 1 < q \<and> q < 2 ^ 64 then word_of_int (float_trunc x) else other x
      | _ \<Rightarrow> other x)"

definition elapsed_seconds :: "time \<Rightarrow> time \<Rightarrow> float64" where
  "elapsed_seconds now prev = (let e = duration_seconds (now - prev) in if e \<le> 0 then Fin 1 else e)"

definition per_second :: "(float64 \<Rightarrow> 64 word) \<Rightarrow> 64 word \<Rightarrow> 64 word \<Rightarrow> float64 \<Rightarrow> 64 word" where
  "per_second other cur prev elapsed = float_uint64 other (float_div (float_of_int (uint (cur - prev))) elapsed)"

section \<open>Data\<close>

record disk_counters =
  dcReadBytes :: "64 word"
  dcWriteBytes :: "64 word"

record net_counters =
  ncName :: string
  ncBytesSent :: "64 word"
  ncBytesRecv :: "64 word"

record usage =
  usTotal :: "64 word"
  usUsed :: "64 word"
  usPercent :: float64

record partition =
  ptMountpoint :: string
  ptFstype :: string

record DiskStat =
  dsMountpoint :: string
  dsTotal :: "64 word"
  dsUsed :: "64 word"
  dsPercent :: float64
  dsFsType :: string

record DiskIOStat =
  diDevice :: string
  diReadBytesSec :: "64 word"
  diWriteBytesSec :: "64 word"

record NetIOStat =
  niInterface :: string
  niBytesSentSec :: "64 word"
  niBytesRecvSec :: "64 word"

record SystemSnapshot =
  syCollectedAt :: time
  syCPUPercent :: float64
  syCPUPerCore :: "float64 list"
  syLoadAvg :: "float64 \<times> float64 \<times> float64"
  syMemTotal :: "64 word"
  syMemUsed :: "64 word"
  syMemPercent :: float64
  sySwapTotal :: "64 word"
  sySwapUsed :: "64 word"
  sySwapPercent :: float64
  syDisks :: "DiskStat list"
  syDiskIO :: "DiskIOStat list"
  syNetworkIO :: "NetIOStat list"
  syUptimeSeconds :: "64 word"

text \<open>The answers of the library during one collection.\<close>

record readings =
  rdCPU :: "float64 list option"
  rdPerCore :: "float64 list option"
  rdLoad :: "(float64 \<times> float64 \<times> float64) option"
  rdMemory :: "usage option"
  rdSwap :: "usage option"
  rdPartitions :: "partition list option"
  rdUsage :: "string \<Rightarrow> usage option"
  rdDiskIO :: "(string \<times> disk_counters) list option"
  rdNetIO :: "net_counters list option"
  rdUptime :: "64 word option"

record Collector =
  prevDiskIO :: "string \<rightharpoonup> disk_counters"
  prevNetIO :: "string \<rightharpoonup> net_counters"
  prevTime :: "time option"

definition NewCollector :: Collector where
  "NewCollector = \<lparr>prevDiskIO = Map.empty, prevNetIO = Map.empty, prevTime = None\<rparr>"

section \<open>Disks\<close>

definition pseudoFS :: "string list" where
  "pseudoFS = [''tmpfs'', ''devtmpfs'', ''squashfs'', ''overlay'', ''proc'', ''sysfs'', ''devpts'', ''cgroup'',
     ''cgroup2'', ''mqueue'', ''hugetlbfs'', ''debugfs'', ''autofs'', ''securityfs'', ''fusectl'']"

definition listed_partition :: "partition \<Rightarrow> bool" where
  "listed_partition p \<longleftrightarrow> ptFstype p \<notin> set pseudoFS \<and>
     \<not> (prefix ''/sys'' (ptMountpoint p) \<or> prefix ''/proc'' (ptMountpoint p))"

fun disk_stats :: "(string \<Rightarrow> usage option) \<Rightarrow> partition list \<Rightarrow> DiskStat list" where
  "disk_stats usage [] = []"
| "disk_stats usage (p # ps) =
     (if \<not> listed_partition p then disk_stats usage ps
      else case usage (ptMountpoint p) of
        None \<Rightarrow> disk_stats usage ps
      | Some u \<Rightarrow>
          \<lparr>dsMountpoint = ptMountpoint p, dsTotal = usTotal u, dsUsed = usUsed u, dsPercent = usPercent u,
           dsFsType = ptFstype p\<rparr> # disk_stats usage ps)"

text \<open>The loops over the counters: a device or an interface that was not there before, or a first
  collection, gives no rate; the loopback interface is left out.\<close>

fun disk_rates :: "(float64 \<Rightarrow> 64 word) \<Rightarrow> Collector \<Rightarrow> time \<Rightarrow> (string \<times> disk_counters) list \<Rightarrow> DiskIOStat list" where
  "disk_rates other c now [] = []"
| "disk_rates other c now ((dev, cur) # rest) =
     (case (prevDiskIO c dev, prevTime c) of
        (Some prev, Some t) \<Rightarrow>
          \<lparr>diDevice = dev,
           diReadBytesSec = per_second other (dcReadBytes cur) (dcReadBytes prev) (elapsed_seconds now t),
           diWriteBytesSec = per_second other (dcWriteBytes cur) (dcWriteBytes prev) (elapsed_seconds now t)\<rparr>
          # disk_rates other c now rest
      | _ \<Rightarrow> disk_rates other c now rest)"

fun net_rates :: "(float64 \<Rightarrow> 64 word) \<Rightarrow> Collector \<Rightarrow> time \<Rightarrow> net_counters list \<Rightarrow> NetIOStat list" where
  "net_rates other c now [] = []"
| "net_rates other c now (cur # rest) =
     (case (prevNetIO c (ncName cur), prevTime c) of
        (Some prev, Some t) \<Rightarrow>
          (if ncName cur = ''lo'' then net_rates other c now rest
           else \<lparr>niInterface = ncName cur,
                 niBytesSentSec = per_second other (ncBytesSent cur) (ncBytesSent prev) (elapsed_seconds now t),
                 niBytesRecvSec = per_second other (ncBytesRecv cur) (ncBytesRecv prev) (elapsed_seconds now t)\<rparr>
                # net_rates other c now rest)
      | _ \<Rightarrow> net_rates other c now rest)"

section \<open>Collecting\<close>

definition read_cpu_memory :: "readings \<Rightarrow> SystemSnapshot \<Rightarrow> SystemSnapshot" where
  "read_cpu_memory rd s =
     (let s1 = (case rdCPU rd of Some (p # ps) \<Rightarrow> s\<lparr>syCPUPercent := p\<rparr> | _ \<Rightarrow> s);
          s2 = (case rdPerCore rd of Some ps \<Rightarrow> s1\<lparr>syCPUPerCore := ps\<rparr> | None \<Rightarrow> s1);
          s3 = (case rdLoad rd of Some l \<Rightarrow> s2\<lparr>syLoadAvg := l\<rparr> | None \<Rightarrow> s2);
          s4 = (case rdMemory rd of
                  Some m \<Rightarrow> s3\<lparr>syMemTotal := usTotal m, syMemUsed := usUsed m, syMemPercent := usPercent m\<rparr>
                | None \<Rightarrow> s3)
      in case rdSwap rd of
           Some m \<Rightarrow> s4\<lparr>sySwapTotal := usTotal m, sySwapUsed := usUsed m, sySwapPercent := usPercent m\<rparr>
         | None \<Rightarrow> s4)"

definition empty_snapshot :: "time \<Rightarrow> SystemSnapshot" where
  "empty_snapshot now =
     \<lparr>syCollectedAt = now, syCPUPercent = Fin 0, syCPUPerCore = [], syLoadAvg = (Fin 0, Fin 0, Fin 0),
      syMemTotal = 0, syMemUsed = 0, syMemPercent = Fin 0, sySwapTotal = 0, sySwapUsed = 0,
      sySwapPercent = Fin 0, syDisks = [], syDiskIO = [], syNetworkIO = [], syUptimeSeconds = 0\<rparr>"

definition metrics_Collect :: "(float64 \<Rightarrow> 64 word) \<Rightarrow> (nat \<Rightarrow> int) \<Rightarrow> readings \<Rightarrow> time \<Rightarrow> Collector \<Rightarrow> SystemSnapshot \<times> Collector" where
  "metrics_Collect other rank rd now c =
     (let s1 = read_cpu_memory rd (empty_snapshot now);
          s2 = (case rdPartitions rd of Some ps \<Rightarrow> s1\<lparr>syDisks := disk_stats (rdUsage rd) ps\<rparr> | None \<Rightarrow> s1);
          (s3, c3) = (case rdDiskIO rd of
                        Some io \<Rightarrow> (s2\<lparr>syDiskIO := disk_rates other c now (visit rank io)\<rparr>, c\<lparr>prevDiskIO := map_of io\<rparr>)
                      | None \<Rightarrow> (s2, c));
          (s4, c4) = (case rdNetIO rd of
                        Some io \<Rightarrow> (s3\<lparr>syNetworkIO := net_rates other c3 now io\<rparr>,
                                    c3\<lparr>prevNetIO := foldl (\<lambda>m n. m(ncName n \<mapsto> n)) Map.empty io\<rparr>)
                      | None \<Rightarrow> (s3, c3));
          s5 = (case rdUptime rd of Some u \<Rightarrow> s4\<lparr>syUptimeSeconds := u\<rparr> | None \<Rightarrow> s4)
      in (s5, c4\<lparr>prevTime := Some now\<rparr>))"

section \<open>The process itself\<close>

record AppSnapshot =
  apCollectedAt :: time
  apGoRoutines :: int
  apHeapAllocBytes :: "64 word"
  apHeapSysBytes :: "64 word"
  apGCPauseTotalMs :: float64
  apNumGC :: "32 word"
  apProcessCPUPercent :: float64
  apProcessMemBytes :: "64 word"
  apOpenFileCount :: "32 word"
  apUptimeSeconds :: int

record MemStats =
  msHeapAlloc :: "64 word"
  msHeapSys :: "64 word"
  msPauseTotalNs :: "64 word"
  msNumGC :: "32 word"

record process_readings =
  pcCPU :: "float64 option"
  pcRSS :: "64 word option"
  pcOpenFiles :: "string list option"

definition CollectApp :: "time \<Rightarrow> time \<Rightarrow> time \<Rightarrow> int \<Rightarrow> MemStats \<Rightarrow> process_readings option \<Rightarrow> AppSnapshot" where
  "CollectApp startTime now later goroutines ms proc =
     (let s = \<lparr>apCollectedAt = now, apGoRoutines = goroutines, apHeapAllocBytes = msHeapAlloc ms,
               apHeapSysBytes = msHeapSys ms,
               apGCPauseTotalMs = float_div (float_of_int (uint (msPauseTotalNs ms))) (Fin 1000000),
               apNumGC = msNumGC ms, apProcessCPUPercent = Fin 0, apProcessMemBytes = 0, apOpenFileCount = 0,
               apUptimeSeconds = float_trunc (duration_seconds (later - startTime))\<rparr>
      in case proc of
           None \<Rightarrow> s
         | Some p \<Rightarrow>
             (let s1 = (case pcCPU p of Some x \<Rightarrow> s\<lparr>apProcessCPUPercent := x\<rparr> | None \<Rightarrow> s);
                  s2 = (case pcRSS p of Some x \<Rightarrow> s1\<lparr>apProcessMemBytes := x\<rparr> | None \<Rightarrow> s1)
              in case pcOpenFiles p of
                   Some fs \<Rightarrow> s2\<lparr>apOpenFileCount := word_of_nat (length fs)\<rparr>
                 | None \<Rightarrow> s2))"

section \<open>Connections\<close>

text \<open>\<open>itoa\<close>: digits are written into a buffer of ten bytes from its end; writing before its start
  is a panic, modelled as \<open>None\<close>.\<close>

function itoa_loop :: "32 word \<Rightarrow> nat \<Rightarrow> string \<Rightarrow> (nat \<times> string) option" where
  "itoa_loop n pos buf =
     (if n = 0 then Some (pos, buf)
      else if pos = 0 then None
      else itoa_loop (n div 10) (pos - 1) (buf[pos - 1 := char_of (unat (n mod 10) + 48)]))"
  by pat_completeness auto
termination
  by (relation "measure (\<lambda>(n, pos, buf). pos)") auto

declare itoa_loop.simps [simp del]

definition itoa :: "32 word \<Rightarrow> string option" where
  "itoa n =
     (if n = 0 then Some ''0''
      else map_option (\<lambda>(pos, buf). drop pos buf) (itoa_loop n 10 (replicate 10 (CHR 0x00))))"

record addr =
  adIP :: string
  adPort :: "32 word"

record connection =
  cnType :: "32 word"
  cnLaddr :: addr
  cnRaddr :: addr
  cnStatus :: string

record ConnStat =
  csProto :: string
  csLocalAddr :: string
  csRemoteAddr :: string
  csStatus :: string

record NetworkSnapshot =
  nsCollectedAt :: time
  nsActiveConns :: int
  nsTCPEstablished :: int
  nsTCPListening :: int
  nsConnections :: "ConnStat list"

definition format_addr :: "addr \<Rightarrow> string option" where
  "format_addr a = (if adIP a \<noteq> [] then map_option (\<lambda>p. adIP a @ '':'' @ p) (itoa (adPort a)) else Some [])"

definition maxDetail :: nat where "maxDetail = 100"

definition conn_stat :: "connection \<Rightarrow> ConnStat option" where
  "conn_stat c =
     (case (format_addr (cnLaddr c), format_addr (cnRaddr c)) of
        (Some l, Some r) \<Rightarrow>
          Some \<lparr>csProto = (if cnType c = 2 then ''udp'' else ''tcp''), csLocalAddr = l, csRemoteAddr = r, csStatus = cnStatus c\<rparr>
      | _ \<Rightarrow> None)"

definition count_status :: "connection \<Rightarrow> NetworkSnapshot \<Rightarrow> NetworkSnapshot" where
  "count_status c s =
     (if cnStatus c = ''ESTABLISHED'' then s\<lparr>nsTCPEstablished := nsTCPEstablished s + 1\<rparr>
      else if cnStatus c = ''LISTEN'' then s\<lparr>nsTCPListening := nsTCPListening s + 1\<rparr>
      else s)"

fun scan_conns :: "nat \<Rightarrow> connection list \<Rightarrow> NetworkSnapshot \<Rightarrow> NetworkSnapshot option" where
  "scan_conns i [] s = Some s"
| "scan_conns i (c # cs) s =
     (let s1 = count_status c s
      in if i < maxDetail
         then (case conn_stat c of
                 None \<Rightarrow> None
               | Some d \<Rightarrow> scan_conns (i + 1) cs (s1\<lparr>nsConnections := nsConnections s1 @ [d]\<rparr>))
         else scan_conns (i + 1) cs s1)"

definition CollectNetwork :: "connection list option \<Rightarrow> time \<Rightarrow> NetworkSnapshot option" where
  "CollectNetwork conns now =
     (let s = \<lparr>nsCollectedAt = now, nsActiveConns = 0, nsTCPEstablished = 0, nsTCPListening = 0, nsConnections = []\<rparr>
      in case conns of
           None \<Rightarrow> Some s
         | Some cs \<Rightarrow> scan_conns 0 cs (s\<lparr>nsActiveConns := int (length cs)\<rparr>))"

end
