(* ===== verification/Config.thy ===== *)
theory Config
  imports Go_Strings
begin

text \<open>
  \<open>internal/config\<close>: the command line. The part of Go's \<open>flag\<close> package the program uses is
  modelled: the arguments up to the first that is not a flag, and the six flags with their
  defaults. The password hash (bcrypt) and the answer of \<open>MkdirAll\<close> are arguments.
\<close>

section \<open>Numbers on the command line\<close>

text \<open>\<open>strconv.ParseInt(s, 0, 64)\<close>, which the \<open>flag\<close> package reads integers with: a prefix gives
  the base, and underscores may stand between digits.\<close>

definition digit_of :: "char \<Rightarrow> nat option" where
  "digit_of c =
     (let b = of_char (to_lower_ascii c) :: nat
      in if is_digit c then Some (digit_val c) else if 97 \<le> b \<and> b \<le> 122 then Some (b - 87) else None)"

fun uint_loop :: "nat \<Rightarrow> nat \<Rightarrow> string \<Rightarrow> nat option" where
  "uint_loop base n [] = Some n"
| "uint_loop base n (c # cs) =
     (if c = CHR ''_'' then uint_loop base n cs
      else case digit_of c of
        None \<Rightarrow> None
      | Some d \<Rightarrow>
          (if base \<le> d then None
           else if max_uint64 div base + 1 \<le> n then None
           else if max_uint64 < base * n + d then None
           else uint_loop base (base * n + d) cs))"

definition base_prefix :: "string \<Rightarrow> nat option" where
  "base_prefix s =
     (if length s < 2 \<or> s ! 0 \<noteq> CHR ''0'' then None
      else if to_lower_ascii (s ! 1) = CHR ''b'' then Some 2
      else if to_lower_ascii (s ! 1) = CHR ''o'' then Some 8
      else if to_lower_ascii (s ! 1) = CHR ''x'' then Some 16
      else None)"

definition base_and_digits :: "string \<Rightarrow> nat \<times> string" where
  "base_and_digits s =
     (if s ! 0 \<noteq> CHR ''0'' then (10, s)
      else case base_prefix s of
        Some b \<Rightarrow> if 3 \<le> length s then (b, drop 2 s) else (8, drop 1 s)
      | None \<Rightarrow> (8, drop 1 s))"

text \<open>The last kind of character seen: a digit (or a base prefix), an underscore, or neither.\<close>

datatype seen = Digit | Underscore | Neither

fun underscores :: "bool \<Rightarrow> seen \<Rightarrow> string \<Rightarrow> bool" where
  "underscores hex i [] = (i \<noteq> Underscore)"
| "underscores hex i (c # cs) =
     (if is_digit c \<or> (hex \<and> digit_of c \<noteq> None \<and> the (digit_of c) < 16) then underscores hex Digit cs
      else if c = CHR ''_'' then i = Digit \<and> underscores hex Underscore cs
      else i \<noteq> Underscore \<and> underscores hex Neither cs)"

definition underscoreOK :: "string \<Rightarrow> bool" where
  "underscoreOK s =
     (case base_prefix s of
        Some b \<Rightarrow> underscores (b = 16) Digit (drop 2 s)
      | None \<Rightarrow> underscores False Neither s)"

definition parse_int0 :: "string \<Rightarrow> int option" where
  "parse_int0 s =
     (case strip_sign s of (neg, t) \<Rightarrow>
        if t = [] then None
        else case base_and_digits t of (base, ds) \<Rightarrow>
          case uint_loop base 0 ds of
            None \<Rightarrow> None
          | Some un \<Rightarrow>
              (if CHR ''_'' \<in> set ds \<and> \<not> underscoreOK t then None
               else if \<not> neg \<and> 2 ^ 63 \<le> un then None
               else if neg \<and> 2 ^ 63 < un then None
               else Some (if neg then - int un else int un)))"

section \<open>The flags\<close>

record flags =
  flHost :: string
  flPort :: int
  flDataDir :: string
  flLogLevel :: string
  flBasicAuth :: string
  flServices :: string

definition default_flags :: flags where
  "default_flags = \<lparr>flHost = ''0.0.0.0'', flPort = 47291, flDataDir = ''./data'', flLogLevel = ''info'',
     flBasicAuth = [], flServices = []\<rparr>"

datatype failure =
  HelpRequested
| BadFlagSyntax string
| NotDefined string
| NeedsArgument string
| InvalidValue string string
| BasicAuthFormat
| BcryptError string
| DataDirError string

definition flag_names :: "string list" where
  "flag_names = [''host'', ''port'', ''data-dir'', ''log-level'', ''basic-auth'', ''services'']"

definition set_flag :: "string \<Rightarrow> string \<Rightarrow> flags \<Rightarrow> flags option" where
  "set_flag name v f =
     (if name = ''host'' then Some (f\<lparr>flHost := v\<rparr>)
      else if name = ''port'' then map_option (\<lambda>n. f\<lparr>flPort := n\<rparr>) (parse_int0 v)
      else if name = ''data-dir'' then Some (f\<lparr>flDataDir := v\<rparr>)
      else if name = ''log-level'' then Some (f\<lparr>flLogLevel := v\<rparr>)
      else if name = ''basic-auth'' then Some (f\<lparr>flBasicAuth := v\<rparr>)
      else if name = ''services'' then Some (f\<lparr>flServices := v\<rparr>)
      else None)"

text \<open>One or two dashes before the name; the value after "=" or in the next argument.\<close>

definition flag_name :: "string \<Rightarrow> string" where
  "flag_name s = (if s ! 1 = CHR ''-'' then drop 2 s else drop 1 s)"

fun parse_args :: "string list \<Rightarrow> flags \<Rightarrow> failure + flags" where
  "parse_args [] f = Inr f"
| "parse_args (s # args) f =
     (if length s < 2 \<or> s ! 0 \<noteq> CHR ''-'' \<or> s = ''--'' then Inr f
      else if flag_name s = [] \<or> hd (flag_name s) = CHR ''-'' \<or> hd (flag_name s) = CHR ''='' then Inl (BadFlagSyntax s)
      else case Cut (flag_name s) (CHR ''='') of (name, value, has_value) \<Rightarrow>
        if name \<notin> set flag_names then Inl (if name = ''help'' \<or> name = ''h'' then HelpRequested else NotDefined name)
        else if has_value then
          (case set_flag name value f of
             None \<Rightarrow> Inl (InvalidValue name value)
           | Some f' \<Rightarrow> parse_args args f')
        else
          (case args of
             [] \<Rightarrow> Inl (NeedsArgument name)
           | v # rest \<Rightarrow>
               (case set_flag name v f of
                  None \<Rightarrow> Inl (InvalidValue name v)
                | Some f' \<Rightarrow> parse_args rest f')))"

declare parse_args.simps(2) [simp del]

section \<open>The configuration\<close>

record Config =
  cfHost :: string
  cfPort :: int
  cfDataDir :: string
  cfBasicAuthUser :: string
  cfBasicAuthHash :: "string option"
  cfServices :: "string list"
  cfLogLevel :: string

definition AuthEnabled :: "Config \<Rightarrow> bool" where
  "AuthEnabled c \<longleftrightarrow> cfBasicAuthHash c \<noteq> None"

definition Addr :: "Config \<Rightarrow> string" where
  "Addr c = cfHost c @ '':'' @ format_int (cfPort c)"

fun service_names :: "string list \<Rightarrow> string list" where
  "service_names [] = []"
| "service_names (s # ss) = (if TrimSpace s \<noteq> [] then TrimSpace s # service_names ss else service_names ss)"

definition basic_auth :: "(string \<Rightarrow> string + string) \<Rightarrow> string \<Rightarrow> Config \<Rightarrow> failure + Config" where
  "basic_auth gen s c =
     (if s = [] then Inr c
      else case Cut s (CHR '':'') of (user, pass, ok) \<Rightarrow>
        if \<not> ok \<or> user = [] \<or> pass = [] then Inl BasicAuthFormat
        else case gen pass of
          Inl e \<Rightarrow> Inl (BcryptError e)
        | Inr h \<Rightarrow> Inr (c\<lparr>cfBasicAuthUser := user, cfBasicAuthHash := Some h\<rparr>))"

text \<open>The program ends with a message (\<open>Inl\<close>) or has a configuration.\<close>

definition ParseFlags :: "(string \<Rightarrow> string + string) \<Rightarrow> (string \<Rightarrow> string option) \<Rightarrow> string list \<Rightarrow> failure + Config" where
  "ParseFlags gen mkdir args =
     (case parse_args args default_flags of
        Inl e \<Rightarrow> Inl e
      | Inr f \<Rightarrow>
          (case basic_auth gen (flBasicAuth f)
                  \<lparr>cfHost = flHost f, cfPort = flPort f, cfDataDir = flDataDir f, cfBasicAuthUser = [],
                   cfBasicAuthHash = None, cfServices = [], cfLogLevel = flLogLevel f\<rparr> of
             Inl e \<Rightarrow> Inl e
           | Inr c \<Rightarrow>
               (let c1 = (if flServices f = [] then c
                          else c\<lparr>cfServices := service_names (Split (flServices f) (CHR '',''))\<rparr>)
                in case mkdir (cfDataDir c1) of
                     Some e \<Rightarrow> Inl (DataDirError e)
                   | None \<Rightarrow> Inr c1)))"

section \<open>What the flags give\<close>

lemma basic_auth_parts:
  assumes "basic_auth gen s c = Inr c'" and "s \<noteq> []"
  shows "\<exists>user pass h. s = user @ CHR '':'' # pass \<and> CHR '':'' \<notin> set user \<and> user \<noteq> [] \<and> pass \<noteq> [] \<and>
    gen pass = Inr h \<and> c' = c\<lparr>cfBasicAuthUser := user, cfBasicAuthHash := Some h\<rparr>"
proof -
  obtain user pass ok where cut: "Cut s (CHR '':'') = (user, pass, ok)" by (metis prod_cases3)
  with assms have "ok" "user \<noteq> []" "pass \<noteq> []" by (auto simp: basic_auth_def split: if_splits)
  moreover from this assms cut obtain h where "gen pass = Inr h"
    "c' = c\<lparr>cfBasicAuthUser := user, cfBasicAuthHash := Some h\<rparr>"
    by (auto simp: basic_auth_def split: sum.splits)
  ultimately show ?thesis using Cut_parts [of s "CHR '':''" user pass] cut by auto
qed

text \<open>
  Basic authentication is on exactly when a user and a password were given. A configuration is only
  returned when the flag is absent or has the form user:password, with a nonempty user without a
  colon and a nonempty password, and then holds that user and the password's hash; nothing else starts the server.
\<close>

theorem auth_configured:
  assumes "ParseFlags gen mkdir args = Inr cfg" and "parse_args args default_flags = Inr f"
  shows "(AuthEnabled cfg \<longleftrightarrow> flBasicAuth f \<noteq> []) \<and>
    (AuthEnabled cfg \<longrightarrow> (\<exists>pass h. flBasicAuth f = cfBasicAuthUser cfg @ CHR '':'' # pass \<and>
       CHR '':'' \<notin> set (cfBasicAuthUser cfg) \<and> cfBasicAuthUser cfg \<noteq> [] \<and> pass \<noteq> [] \<and>
       gen pass = Inr h \<and> cfBasicAuthHash cfg = Some h))"
proof (cases "flBasicAuth f = []")
  case True
  with assms show ?thesis
    by (auto simp: ParseFlags_def basic_auth_def AuthEnabled_def Let_def split: option.splits if_splits)
next
  case False
  let ?c = "\<lparr>cfHost = flHost f, cfPort = flPort f, cfDataDir = flDataDir f, cfBasicAuthUser = [],
    cfBasicAuthHash = None, cfServices = [], cfLogLevel = flLogLevel f\<rparr>"
  obtain c' where c': "basic_auth gen (flBasicAuth f) ?c = Inr c'"
    using assms by (cases "basic_auth gen (flBasicAuth f) ?c") (auto simp: ParseFlags_def)
  then have "cfBasicAuthUser cfg = cfBasicAuthUser c' \<and> cfBasicAuthHash cfg = cfBasicAuthHash c'"
    using assms by (auto simp: ParseFlags_def Let_def split: option.splits if_splits)
  with basic_auth_parts [OF c' False] False show ?thesis by (auto simp: AuthEnabled_def)
qed

lemma auth_configured_witness:
  "AuthEnabled (\<lparr>cfHost = ''0.0.0.0'', cfPort = 8080, cfDataDir = ''./data'', cfBasicAuthUser = ''a'',
     cfBasicAuthHash = Some ''b:c'', cfServices = [], cfLogLevel = ''info''\<rparr>)"
proof -
  let ?args = "[''--basic-auth'', ''a:b:c'', ''-port=0x1F90'']"
  let ?f = "default_flags\<lparr>flBasicAuth := ''a:b:c'', flPort := 8080\<rparr>"
  have port: "parse_int0 ''0x1F90'' = Some 8080"
    by (simp add: parse_int0_def strip_sign_def base_and_digits_def base_prefix_def digit_of_def to_lower_ascii_def
        is_digit_def digit_val_def max_uint64_def)
  have f: "parse_args ?args default_flags = Inr ?f"
    by (simp add: parse_args.simps(2) flag_name_def flag_names_def Cut_def set_flag_def port)
  have "ParseFlags Inr (\<lambda>_. None) ?args = Inr \<lparr>cfHost = ''0.0.0.0'', cfPort = 8080, cfDataDir = ''./data'',
     cfBasicAuthUser = ''a'', cfBasicAuthHash = Some ''b:c'', cfServices = [], cfLogLevel = ''info''\<rparr>"
    using f by (simp add: ParseFlags_def basic_auth_def Cut_def default_flags_def)
  from auth_configured [OF this f] show ?thesis by simp
qed

end
