(* ===== verification/Go_Json.thy ===== *)
theory Go_Json
  imports Go_Strings
begin

text \<open>
  What the program uses of \<open>encoding/json\<close> to read a request: how a JSON value is stored into a
  struct, an integer, a string, a Boolean, a pointer or a map of floats. The value is the first one of
  the body; reading it off the text is the library's, and \<open>None\<close> stands for a text that is not JSON. A number
  is an integer when its literal has neither fraction nor exponent.
\<close>

datatype json =
  JNull
| JBool bool
| JInt int
| JReal rat
| JString string
| JArray "json list"
| JObject "(string \<times> json) list"

text \<open>Member names are matched up to letter case; two letters outside ASCII fold to s and k.\<close>

fun fold_name :: "string \<Rightarrow> string" where
  "fold_name [] = []"
| "fold_name (c # cs) =
     (if c = CHR 0xC5 \<and> prefix [CHR 0xBF] cs then CHR ''s'' # fold_name (drop 1 cs)
      else if c = CHR 0xE2 \<and> prefix [CHR 0x84, CHR 0xAA] cs then CHR ''k'' # fold_name (drop 2 cs)
      else to_lower_ascii c # fold_name cs)"

text \<open>Storing into a variable that holds a value: \<open>null\<close> leaves it alone, a value of another type is an
  error (\<open>None\<close>). The library goes on after such an error and reports it at the end, and the caller then
  drops the variable.\<close>

fun dec_string :: "json \<Rightarrow> string \<Rightarrow> string option" where
  "dec_string JNull x = Some x"
| "dec_string (JString s) x = Some s"
| "dec_string v x = None"

fun dec_bool :: "json \<Rightarrow> bool \<Rightarrow> bool option" where
  "dec_bool JNull x = Some x"
| "dec_bool (JBool b) x = Some b"
| "dec_bool v x = None"

fun dec_int :: "json \<Rightarrow> int \<Rightarrow> int option" where
  "dec_int JNull x = Some x"
| "dec_int (JInt i) x = (if is_int64 i then Some i else None)"
| "dec_int v x = None"

definition finite_float :: "float64 \<Rightarrow> float64 option" where
  "finite_float f = (case f of Fin q \<Rightarrow> Some f | _ \<Rightarrow> None)"

fun dec_float :: "json \<Rightarrow> float64 \<Rightarrow> float64 option" where
  "dec_float JNull x = Some x"
| "dec_float (JInt i) x = finite_float (float_of_int i)"
| "dec_float (JReal q) x = finite_float (float_of_rat q)"
| "dec_float v x = None"

text \<open>A pointer becomes nil for \<open>null\<close>; otherwise it points to a new variable unless it has one.\<close>

definition dec_ptr :: "(json \<Rightarrow> 'a \<Rightarrow> 'a option) \<Rightarrow> 'a \<Rightarrow> json \<Rightarrow> 'a option \<Rightarrow> 'a option option" where
  "dec_ptr read zero v p =
     (if v = JNull then Some None
      else map_option Some (read v (case p of None \<Rightarrow> zero | Some x \<Rightarrow> x)))"

fun dec_members :: "(string \<Rightarrow> json \<Rightarrow> 'r \<Rightarrow> 'r option) \<Rightarrow> (string \<times> json) list \<Rightarrow> 'r \<Rightarrow> 'r option" where
  "dec_members store [] r = Some r"
| "dec_members store ((k, v) # kvs) r =
     (case store (fold_name k) v r of None \<Rightarrow> None | Some r' \<Rightarrow> dec_members store kvs r')"

fun dec_struct :: "(string \<Rightarrow> json \<Rightarrow> 'r \<Rightarrow> 'r option) \<Rightarrow> json \<Rightarrow> 'r \<Rightarrow> 'r option" where
  "dec_struct store JNull r = Some r"
| "dec_struct store (JObject kvs) r = dec_members store kvs r"
| "dec_struct store v r = None"

text \<open>A \<open>map[string]float64\<close>, as an association list; each element is decoded into a new zero.\<close>

fun dec_map_members :: "(string \<times> json) list \<Rightarrow> (string \<times> float64) list \<Rightarrow> (string \<times> float64) list option" where
  "dec_map_members [] m = Some m"
| "dec_map_members ((k, v) # kvs) m =
     (case dec_float v (Fin 0) of None \<Rightarrow> None | Some f \<Rightarrow> dec_map_members kvs (AList.update k f m))"

fun dec_float_map :: "json \<Rightarrow> (string \<times> float64) list option" where
  "dec_float_map JNull = Some []"
| "dec_float_map (JObject kvs) = dec_map_members kvs []"
| "dec_float_map v = None"

section \<open>Facts\<close>

text \<open>A number that was read is finite.\<close>

lemma dec_float_finite: "dec_float v (Fin x) = Some f \<Longrightarrow> \<exists>q. f = Fin q"
  by (cases v) (auto simp: finite_float_def dest!: sym [of "Fin _"] split: float64.splits)

lemma dec_map_members_finite:
  "dec_map_members kvs m = Some m' \<Longrightarrow> \<forall>(k, f) \<in> set m. \<exists>q. f = Fin q \<Longrightarrow> (k, f) \<in> set m' \<Longrightarrow> \<exists>q. f = Fin q"
proof (induction kvs m rule: dec_map_members.induct)
  case (2 k' v kvs m)
  then obtain g where g: "dec_float v (Fin 0) = Some g" "dec_map_members kvs (AList.update k' g m) = Some m'"
    by (auto split: option.splits)
  have "set (AList.update k' g m) \<subseteq> insert (k', g) (set m)" by (induction m) auto
  then have "\<forall>(k, f) \<in> set (AList.update k' g m). \<exists>q. f = Fin q"
    using "2.prems"(2) dec_float_finite [OF g(1)] by blast
  with "2.IH" [OF g(1) g(2)] "2.prems"(3) show ?case by blast
qed auto

lemma dec_float_map_finite: "dec_float_map v = Some m \<Longrightarrow> (k, f) \<in> set m \<Longrightarrow> \<exists>q. f = Fin q"
  using dec_map_members_finite by (cases v) fastforce+

lemma dec_map_members_distinct: "dec_map_members kvs m = Some m' \<Longrightarrow> keys_distinct m \<Longrightarrow> keys_distinct m'"
  by (induction kvs m rule: dec_map_members.induct) (auto split: option.splits)

lemma dec_float_map_distinct: "dec_float_map v = Some m \<Longrightarrow> keys_distinct m"
  by (cases v) (auto intro: dec_map_members_distinct)

lemma dec_int_range: "is_int64 x \<Longrightarrow> dec_int v x = Some i \<Longrightarrow> is_int64 i"
  by (cases v) (auto split: if_splits)

end
