(* ===== verification/Http.thy ===== *)
theory Http
  imports Alerts Urlcheck Sse Security Tunnel Services Metrics Config Go_Json
begin

text \<open>
  \<open>internal/http\<close>: the latest snapshots, the handlers of the API, the routes, the access log and
  basic authentication. A request is what Go's server makes of the text it reads; a response is a
  status with the value whose JSON is sent. \<open>None\<close> is a panic, which only closing a closed channel in the
  checker could cause. The files of the web interface are a parameter.
\<close>

section \<open>State\<close>

record LatestData =
  ltSystem :: "SystemSnapshot option"
  ltApp :: "AppSnapshot option"
  ltNetwork :: "NetworkSnapshot option"
  ltSecurity :: "SecuritySnapshot option"
  ltTunnel :: "Status option"
  ltServices :: "ServicesSnapshot option"

definition no_data :: LatestData where
  "no_data = \<lparr>ltSystem = None, ltApp = None, ltNetwork = None, ltSecurity = None, ltTunnel = None, ltServices = None\<rparr>"

text \<open>An entry of the access log: method, path, status.\<close>

record server =
  svChecker :: Checker
  svEngine :: Engine
  svBroker :: Broker
  svLatest :: LatestData
  svWorld :: world
  svAccessLog :: "(string \<times> string \<times> int) list"

definition newer :: "'a option \<Rightarrow> 'a option \<Rightarrow> 'a option" where
  "newer new old = (case new of Some x \<Rightarrow> Some x | None \<Rightarrow> old)"

definition UpdateLatest :: "LatestData \<Rightarrow> server \<Rightarrow> server" where
  "UpdateLatest d s =
     (let l = svLatest s
      in s\<lparr>svLatest := \<lparr>ltSystem = newer (ltSystem d) (ltSystem l), ltApp = newer (ltApp d) (ltApp l),
             ltNetwork = newer (ltNetwork d) (ltNetwork l), ltSecurity = newer (ltSecurity d) (ltSecurity l),
             ltTunnel = newer (ltTunnel d) (ltTunnel l), ltServices = newer (ltServices d) (ltServices l)\<rparr>\<rparr>)"

section \<open>Requests and responses\<close>

text \<open>The path is the cleaned and decoded one (the router splits it before decoding, so that a slash written \<open>%2F\<close> is a
  separator here and none there); \<open>rqLimit\<close> is the first value of the query
  parameter \<open>limit\<close>, empty without one; \<open>rqBasicAuth\<close> is what \<open>BasicAuth\<close> reads off the header;
  \<open>rqCtx\<close> names the context of the request, \<open>rqConn\<close> the identifier drawn for an event stream,
  \<open>rqOrder\<close> the order in which maps are ranged over.\<close>

record request =
  rqMethod :: string
  rqPath :: string
  rqLimit :: string
  rqBasicAuth :: "(string \<times> string) option"
  rqBody :: "json option"
  rqCtx :: nat
  rqConn :: string
  rqOrder :: "nat \<Rightarrow> int"

record check_item =
  ciCheck :: URLCheck
  ciLastResult :: "Result option"
  ciUptimePct :: float64

datatype body =
  ErrorMessage string
| ErrorOf db_error
| OkTrue
| MetricsBody "SystemSnapshot option" "AppSnapshot option" "NetworkSnapshot option"
| AlertsBody "Alert list" "Alert list"
| ChecksBody "check_item list"
| CheckBody URLCheck
| SummaryBody Summary
| HistoryBody "URLResult list"
| ThresholdsBody "string \<rightharpoonup> float64"
| ServicesBody "ServicesSnapshot option"
| SecurityBody "SecuritySnapshot option"
| TunnelBody "Status option"
| PlainText string

record response =
  rsCode :: int
  rsWWWAuthenticate :: "string option"
  rsBody :: body

text \<open>A handler answers, or keeps an event stream open on a connection of the broker.\<close>

datatype outcome = Reply response | Stream nat

definition writeJSON :: "int \<Rightarrow> body \<Rightarrow> server \<Rightarrow> (outcome \<times> server) option" where
  "writeJSON code b s = Some (Reply \<lparr>rsCode = code, rsWWWAuthenticate = None, rsBody = b\<rparr>, s)"

definition writeError :: "int \<Rightarrow> string \<Rightarrow> server \<Rightarrow> (outcome \<times> server) option" where
  "writeError code msg s = writeJSON code (ErrorMessage msg) s"

definition method_not_allowed :: "server \<Rightarrow> (outcome \<times> server) option" where
  "method_not_allowed s = writeError 405 ''method not allowed'' s"

section \<open>Snapshots\<close>

definition HandleMetrics :: "request \<Rightarrow> server \<Rightarrow> (outcome \<times> server) option" where
  "HandleMetrics rq s =
     (if rqMethod rq \<noteq> ''GET'' then method_not_allowed s
      else let d = svLatest s in writeJSON 200 (MetricsBody (ltSystem d) (ltApp d) (ltNetwork d)) s)"

definition HandleServices :: "request \<Rightarrow> server \<Rightarrow> (outcome \<times> server) option" where
  "HandleServices rq s =
     (if rqMethod rq \<noteq> ''GET'' then method_not_allowed s
      else writeJSON 200 (ServicesBody (ltServices (svLatest s))) s)"

definition HandleSecurity :: "request \<Rightarrow> server \<Rightarrow> (outcome \<times> server) option" where
  "HandleSecurity rq s =
     (if rqMethod rq \<noteq> ''GET'' then method_not_allowed s
      else writeJSON 200 (SecurityBody (ltSecurity (svLatest s))) s)"

definition HandleTunnel :: "request \<Rightarrow> server \<Rightarrow> (outcome \<times> server) option" where
  "HandleTunnel rq s =
     (if rqMethod rq \<noteq> ''GET'' then method_not_allowed s
      else writeJSON 200 (TunnelBody (ltTunnel (svLatest s))) s)"

section \<open>Alerts\<close>

definition HandleAlerts :: "request \<Rightarrow> server \<Rightarrow> (outcome \<times> server) option" where
  "HandleAlerts rq s =
     (if rqMethod rq \<noteq> ''GET'' then method_not_allowed s
      else case ActiveAlerts (svWorld s) of
        ((_, Some e), w1) \<Rightarrow> writeJSON 500 (ErrorOf e) (s\<lparr>svWorld := w1\<rparr>)
      | ((active, None), w1) \<Rightarrow>
          (case RecentAlerts 50 w1 of
             ((_, Some e), w2) \<Rightarrow> writeJSON 500 (ErrorOf e) (s\<lparr>svWorld := w2\<rparr>)
           | ((recent, None), w2) \<Rightarrow> writeJSON 200 (AlertsBody active recent) (s\<lparr>svWorld := w2\<rparr>)))"

definition HandleAcknowledgeAlert :: "string \<Rightarrow> request \<Rightarrow> server \<Rightarrow> (outcome \<times> server) option" where
  "HandleAcknowledgeAlert idStr rq s =
     (if rqMethod rq \<noteq> ''POST'' then method_not_allowed s
      else case ParseInt idStr of
        (_, Some _) \<Rightarrow> writeError 400 ''invalid id'' s
      | (i, None) \<Rightarrow>
          (case AcknowledgeAlert i (svWorld s) of
             (Inl e, w1) \<Rightarrow> writeJSON 500 (ErrorOf e) (s\<lparr>svWorld := w1\<rparr>)
           | (Inr _, w1) \<Rightarrow> writeJSON 200 OkTrue (s\<lparr>svWorld := w1\<rparr>)))"

section \<open>URL checks\<close>

definition listURLChecks :: "request \<Rightarrow> server \<Rightarrow> (outcome \<times> server) option" where
  "listURLChecks rq s =
     writeJSON 200 (ChecksBody (map (\<lambda>m. \<lparr>ciCheck = smCheck m, ciLastResult = smLastResult m, ciUptimePct = smUptimePct m\<rparr>)
       (Summaries (rqOrder rq) (svChecker s)))) s"

record create_request =
  crURL :: string
  crLabel :: string
  crIntervalSeconds :: int
  crTimeoutSeconds :: int
  crEnabled :: "bool option"

definition create_member :: "string \<Rightarrow> json \<Rightarrow> create_request \<Rightarrow> create_request option" where
  "create_member k v r =
     (if k = ''url'' then map_option (\<lambda>x. r\<lparr>crURL := x\<rparr>) (dec_string v (crURL r))
      else if k = ''label'' then map_option (\<lambda>x. r\<lparr>crLabel := x\<rparr>) (dec_string v (crLabel r))
      else if k = ''interval_seconds'' then map_option (\<lambda>x. r\<lparr>crIntervalSeconds := x\<rparr>) (dec_int v (crIntervalSeconds r))
      else if k = ''timeout_seconds'' then map_option (\<lambda>x. r\<lparr>crTimeoutSeconds := x\<rparr>) (dec_int v (crTimeoutSeconds r))
      else if k = ''enabled'' then map_option (\<lambda>x. r\<lparr>crEnabled := x\<rparr>) (dec_ptr dec_bool False v (crEnabled r))
      else Some r)"

definition decode_create :: "json option \<Rightarrow> create_request option" where
  "decode_create b =
     (case b of
        None \<Rightarrow> None
      | Some v \<Rightarrow> dec_struct create_member v
          \<lparr>crURL = [], crLabel = [], crIntervalSeconds = 0, crTimeoutSeconds = 0, crEnabled = None\<rparr>)"

text \<open>The check a request asks for, with the defaults.\<close>

definition new_check :: "create_request \<Rightarrow> time \<Rightarrow> URLCheck" where
  "new_check r now =
     \<lparr>ucID = 0, ucURL = crURL r, ucLabel = crLabel r,
      ucIntervalSeconds = (if crIntervalSeconds r \<le> 0 then 60 else crIntervalSeconds r),
      ucTimeoutSeconds = (if crTimeoutSeconds r \<le> 0 then 10 else crTimeoutSeconds r),
      ucEnabled = (case crEnabled r of None \<Rightarrow> True | Some e \<Rightarrow> e), ucCreatedAt = now\<rparr>"

definition createURLCheck :: "request \<Rightarrow> server \<Rightarrow> (outcome \<times> server) option" where
  "createURLCheck rq s =
     (case decode_create (rqBody rq) of
        None \<Rightarrow> writeError 400 ''invalid JSON'' s
      | Some r \<Rightarrow>
          if crURL r = [] then writeError 400 ''url is required'' s
          else case time_Now (svWorld s) of (now, w1) \<Rightarrow>
            case Add (rqCtx rq) (new_check r now) (svChecker s) w1 of
              ((_, Some e), c, w2) \<Rightarrow> writeJSON 500 (ErrorOf e) (s\<lparr>svChecker := c, svWorld := w2\<rparr>)
            | ((created, None), c, w2) \<Rightarrow> writeJSON 201 (CheckBody created) (s\<lparr>svChecker := c, svWorld := w2\<rparr>))"

definition HandleURLChecks :: "request \<Rightarrow> server \<Rightarrow> (outcome \<times> server) option" where
  "HandleURLChecks rq s =
     (if rqMethod rq = ''GET'' then listURLChecks rq s
      else if rqMethod rq = ''POST'' then createURLCheck rq s
      else method_not_allowed s)"

record update_request =
  upURL :: "string option"
  upLabel :: "string option"
  upIntervalSeconds :: "int option"
  upTimeoutSeconds :: "int option"
  upEnabled :: "bool option"

definition update_member :: "string \<Rightarrow> json \<Rightarrow> update_request \<Rightarrow> update_request option" where
  "update_member k v r =
     (if k = ''url'' then map_option (\<lambda>x. r\<lparr>upURL := x\<rparr>) (dec_ptr dec_string [] v (upURL r))
      else if k = ''label'' then map_option (\<lambda>x. r\<lparr>upLabel := x\<rparr>) (dec_ptr dec_string [] v (upLabel r))
      else if k = ''interval_seconds'' then map_option (\<lambda>x. r\<lparr>upIntervalSeconds := x\<rparr>) (dec_ptr dec_int 0 v (upIntervalSeconds r))
      else if k = ''timeout_seconds'' then map_option (\<lambda>x. r\<lparr>upTimeoutSeconds := x\<rparr>) (dec_ptr dec_int 0 v (upTimeoutSeconds r))
      else if k = ''enabled'' then map_option (\<lambda>x. r\<lparr>upEnabled := x\<rparr>) (dec_ptr dec_bool False v (upEnabled r))
      else Some r)"

definition decode_update :: "json option \<Rightarrow> update_request option" where
  "decode_update b =
     (case b of
        None \<Rightarrow> None
      | Some v \<Rightarrow> dec_struct update_member v
          \<lparr>upURL = None, upLabel = None, upIntervalSeconds = None, upTimeoutSeconds = None, upEnabled = None\<rparr>)"

definition or_else :: "'a option \<Rightarrow> 'a \<Rightarrow> 'a" where
  "or_else x y = (case x of Some z \<Rightarrow> z | None \<Rightarrow> y)"

definition apply_update :: "update_request \<Rightarrow> URLCheck \<Rightarrow> URLCheck" where
  "apply_update r u =
     u\<lparr>ucURL := or_else (upURL r) (ucURL u), ucLabel := or_else (upLabel r) (ucLabel u),
       ucIntervalSeconds := or_else (upIntervalSeconds r) (ucIntervalSeconds u),
       ucTimeoutSeconds := or_else (upTimeoutSeconds r) (ucTimeoutSeconds u),
       ucEnabled := or_else (upEnabled r) (ucEnabled u)\<rparr>"

definition updateURLCheck :: "int \<Rightarrow> request \<Rightarrow> server \<Rightarrow> (outcome \<times> server) option" where
  "updateURLCheck i rq s =
     (case GetURLCheck i (svWorld s) of
        (Inl _, w1) \<Rightarrow> writeError 404 ''not found'' (s\<lparr>svWorld := w1\<rparr>)
      | (Inr existing, w1) \<Rightarrow>
          (case decode_update (rqBody rq) of
             None \<Rightarrow> writeError 400 ''invalid JSON'' (s\<lparr>svWorld := w1\<rparr>)
           | Some r \<Rightarrow>
               (case Update (rqCtx rq) (apply_update r existing) (svChecker s) w1 of
                  None \<Rightarrow> None
                | Some (Some e, c, w2) \<Rightarrow> writeJSON 500 (ErrorOf e) (s\<lparr>svChecker := c, svWorld := w2\<rparr>)
                | Some (None, c, w2) \<Rightarrow>
                    writeJSON 200 (CheckBody (apply_update r existing)) (s\<lparr>svChecker := c, svWorld := w2\<rparr>))))"

definition HandleURLCheckByID :: "string \<Rightarrow> request \<Rightarrow> server \<Rightarrow> (outcome \<times> server) option" where
  "HandleURLCheckByID idStr rq s =
     (case ParseInt idStr of
        (_, Some _) \<Rightarrow> writeError 400 ''invalid id'' s
      | (i, None) \<Rightarrow>
          if rqMethod rq = ''GET'' then
            (case GetSummary i (svChecker s) of
               None \<Rightarrow> writeError 404 ''not found'' s
             | Some m \<Rightarrow> writeJSON 200 (SummaryBody m) s)
          else if rqMethod rq = ''PUT'' then updateURLCheck i rq s
          else if rqMethod rq = ''DELETE'' then
            (case Remove i (svChecker s) (svWorld s) of
               None \<Rightarrow> None
             | Some (Some e, c, w1) \<Rightarrow> writeJSON 500 (ErrorOf e) (s\<lparr>svChecker := c, svWorld := w1\<rparr>)
             | Some (None, c, w1) \<Rightarrow> writeJSON 200 OkTrue (s\<lparr>svChecker := c, svWorld := w1\<rparr>))
          else method_not_allowed s)"

text \<open>The limit asked for, when it is a positive number; 20 otherwise.\<close>

definition history_limit :: "string \<Rightarrow> int" where
  "history_limit l =
     (if l = [] then 20 else case Atoi l of (n, None) \<Rightarrow> if 0 < n then n else 20 | (n, Some _) \<Rightarrow> 20)"

definition HandleURLHistory :: "string \<Rightarrow> request \<Rightarrow> server \<Rightarrow> (outcome \<times> server) option" where
  "HandleURLHistory idStr rq s =
     (if rqMethod rq \<noteq> ''GET'' then method_not_allowed s
      else case ParseInt idStr of
        (_, Some _) \<Rightarrow> writeError 400 ''invalid id'' s
      | (i, None) \<Rightarrow>
          (case URLResultHistory i (history_limit (rqLimit rq)) (svWorld s) of
             ((_, Some e), w1) \<Rightarrow> writeJSON 500 (ErrorOf e) (s\<lparr>svWorld := w1\<rparr>)
           | ((history, None), w1) \<Rightarrow> writeJSON 200 (HistoryBody history) (s\<lparr>svWorld := w1\<rparr>)))"

section \<open>Thresholds\<close>

text \<open>The loop stops at the first error, with the thresholds before it updated.\<close>

fun put_thresholds :: "(string \<times> float64) list \<Rightarrow> Engine \<Rightarrow> world \<Rightarrow> db_error option \<times> Engine \<times> world" where
  "put_thresholds [] e w = (None, e, w)"
| "put_thresholds ((k, v) # kvs) e w =
     (case UpdateThreshold k v e w of
        (Some x, e1, w1) \<Rightarrow> (Some x, e1, w1)
      | (None, e1, w1) \<Rightarrow> put_thresholds kvs e1 w1)"

definition HandleThresholds :: "request \<Rightarrow> server \<Rightarrow> (outcome \<times> server) option" where
  "HandleThresholds rq s =
     (if rqMethod rq = ''GET'' then writeJSON 200 (ThresholdsBody (engine_GetThresholds (svEngine s))) s
      else if rqMethod rq = ''PUT'' then
        (case Option.bind (rqBody rq) dec_float_map of
           None \<Rightarrow> writeError 400 ''invalid JSON'' s
         | Some m \<Rightarrow>
             (case put_thresholds (visit (rqOrder rq) m) (svEngine s) (svWorld s) of
                (Some x, e, w) \<Rightarrow> writeJSON 500 (ErrorOf x) (s\<lparr>svEngine := e, svWorld := w\<rparr>)
              | (None, e, w) \<Rightarrow>
                  writeJSON 200 (ThresholdsBody (engine_GetThresholds e)) (s\<lparr>svEngine := e, svWorld := w\<rparr>)))
      else method_not_allowed s)"

section \<open>Routes\<close>

datatype endpoint =
  MetricsEP | AlertsEP | AcknowledgeEP string | ChecksEP | CheckEP string | HistoryEP string
| ThresholdsEP | ServicesEP | SecurityEP | TunnelEP | EventsEP | AssetsEP

text \<open>A pattern's method \<open>GET\<close> also matches \<open>HEAD\<close>; a wildcard matches one nonempty segment. What no
  pattern with the method matches goes to the files.\<close>

definition is_get :: "string \<Rightarrow> bool" where
  "is_get m \<longleftrightarrow> m = ''GET'' \<or> m = ''HEAD''"

definition route :: "string \<Rightarrow> string \<Rightarrow> endpoint" where
  "route m path =
     (case Split path (CHR ''/'') of
        [_, a] \<Rightarrow> if a = ''events'' \<and> is_get m then EventsEP else AssetsEP
      | [_, a, b] \<Rightarrow>
          if a \<noteq> ''api'' then AssetsEP
          else if b = ''metrics'' \<and> is_get m then MetricsEP
          else if b = ''alerts'' \<and> is_get m then AlertsEP
          else if b = ''url-checks'' then ChecksEP
          else if b = ''thresholds'' then ThresholdsEP
          else if b = ''services'' \<and> is_get m then ServicesEP
          else if b = ''security'' \<and> is_get m then SecurityEP
          else if b = ''tunnel'' \<and> is_get m then TunnelEP
          else AssetsEP
      | [_, a, b, i] \<Rightarrow> if a = ''api'' \<and> b = ''url-checks'' \<and> i \<noteq> [] then CheckEP i else AssetsEP
      | [_, a, b, i, c] \<Rightarrow>
          if a = ''api'' \<and> b = ''alerts'' \<and> i \<noteq> [] \<and> c = ''acknowledge'' \<and> m = ''POST'' then AcknowledgeEP i
          else if a = ''api'' \<and> b = ''url-checks'' \<and> i \<noteq> [] \<and> c = ''history'' \<and> is_get m then HistoryEP i
          else AssetsEP
      | _ \<Rightarrow> AssetsEP)"

text \<open>\<open>ServeHTTP\<close> of the broker: the writer it gets, \<open>responseWriter\<close>, can always be flushed.\<close>

definition HandleEvents :: "request \<Rightarrow> server \<Rightarrow> (outcome \<times> server) option" where
  "HandleEvents rq s =
     (case serve_start True (rqConn rq) (svBroker s) of
        (Some code, b) \<Rightarrow>
          Some (Reply \<lparr>rsCode = int code, rsWWWAuthenticate = None, rsBody = PlainText ''streaming not supported''\<rparr>, s\<lparr>svBroker := b\<rparr>)
      | (None, b) \<Rightarrow> Some (Stream (length (conns (svBroker s))), s\<lparr>svBroker := b\<rparr>))"

fun handler :: "endpoint \<Rightarrow> request \<Rightarrow> server \<Rightarrow> (outcome \<times> server) option" where
  "handler MetricsEP rq s = HandleMetrics rq s"
| "handler AlertsEP rq s = HandleAlerts rq s"
| "handler (AcknowledgeEP i) rq s = HandleAcknowledgeAlert i rq s"
| "handler ChecksEP rq s = HandleURLChecks rq s"
| "handler (CheckEP i) rq s = HandleURLCheckByID i rq s"
| "handler (HistoryEP i) rq s = HandleURLHistory i rq s"
| "handler ThresholdsEP rq s = HandleThresholds rq s"
| "handler ServicesEP rq s = HandleServices rq s"
| "handler SecurityEP rq s = HandleSecurity rq s"
| "handler TunnelEP rq s = HandleTunnel rq s"
| "handler EventsEP rq s = HandleEvents rq s"
| "handler AssetsEP rq s = None"

section \<open>The wrappers\<close>

text \<open>The entry is written when the handler has returned, which an open stream has not.\<close>

definition withLogging :: "(request \<Rightarrow> server \<Rightarrow> (outcome \<times> server) option) \<Rightarrow> request \<Rightarrow> server \<Rightarrow> (outcome \<times> server) option" where
  "withLogging next rq s =
     (case time_Now (svWorld s) of (start, w) \<Rightarrow>
        case next rq (s\<lparr>svWorld := w\<rparr>) of
          None \<Rightarrow> None
        | Some (Stream c, s1) \<Rightarrow> Some (Stream c, s1)
        | Some (Reply r, s1) \<Rightarrow>
            (case time_Now (svWorld s1) of (now, w1) \<Rightarrow>
               Some (Reply r, s1\<lparr>svWorld := w1, svAccessLog := svAccessLog s1 @ [(rqMethod rq, rqPath rq, rsCode r)]\<rparr>)))"

definition unauthorized :: response where
  "unauthorized = \<lparr>rsCode = 401, rsWWWAuthenticate = Some ''Basic realm=\"monitoring24\"'', rsBody = PlainText ''unauthorized''\<rparr>"

text \<open>\<open>compare hash password\<close> is bcrypt's verdict; no password matches a hash that is not there.\<close>

definition credentials_ok :: "(string \<Rightarrow> string \<Rightarrow> bool) \<Rightarrow> Config \<Rightarrow> request \<Rightarrow> bool" where
  "credentials_ok compare cfg rq =
     (case rqBasicAuth rq of
        None \<Rightarrow> False
      | Some (user, pass) \<Rightarrow> user = cfBasicAuthUser cfg \<and>
          (case cfBasicAuthHash cfg of None \<Rightarrow> False | Some h \<Rightarrow> compare h pass))"

definition withBasicAuth :: "(string \<Rightarrow> string \<Rightarrow> bool) \<Rightarrow> (request \<Rightarrow> server \<Rightarrow> (outcome \<times> server) option) \<Rightarrow> Config
    \<Rightarrow> request \<Rightarrow> server \<Rightarrow> (outcome \<times> server) option" where
  "withBasicAuth compare next cfg rq s =
     (if \<not> credentials_ok compare cfg rq then Some (Reply unauthorized, s) else next rq s)"

definition wrap :: "(string \<Rightarrow> string \<Rightarrow> bool) \<Rightarrow> Config \<Rightarrow> (request \<Rightarrow> server \<Rightarrow> (outcome \<times> server) option)
    \<Rightarrow> request \<Rightarrow> server \<Rightarrow> (outcome \<times> server) option" where
  "wrap compare cfg fn = (if AuthEnabled cfg then withBasicAuth compare (withLogging fn) cfg else withLogging fn)"

definition serve :: "(string \<Rightarrow> response) \<Rightarrow> (string \<Rightarrow> string \<Rightarrow> bool) \<Rightarrow> Config \<Rightarrow> request \<Rightarrow> server \<Rightarrow> (outcome \<times> server) option" where
  "serve assets compare cfg rq s =
     (case route (rqMethod rq) (rqPath rq) of
        AssetsEP \<Rightarrow> Some (Reply (assets (rqPath rq)), s)
      | ep \<Rightarrow> wrap compare cfg (handler ep) rq s)"

end
