(* ===== verification/Server.thy ===== *)
theory Server
  imports Http
begin

text \<open>
  \<open>cmd/server\<close>: the process. Startup, the two tickers of \<open>runCollector\<close>, the purge and the relay
  of results, composed from the components as \<open>main.go\<close> composes them. Each branch of a loop is one function;
  what the system answers during a tick is its argument. \<open>None\<close> is a panic.
\<close>

section \<open>State\<close>

record process =
  psServer :: server
  psCollector :: Collector
  psDetector :: Detector
  psParser :: Parser
  psServices :: "string list"
  psStartTime :: time

text \<open>The values whose JSON is broadcast.\<close>

datatype payload =
  AlertPayload Alert
| MetricsPayload SystemSnapshot AppSnapshot NetworkSnapshot
| TunnelPayload Status
| ServicesPayload ServicesSnapshot
| ResultPayload Result

section \<open>The fast tick\<close>

record fast_input =
  fiReadings :: readings
  fiConvert :: "float64 \<Rightarrow> 64 word"
  fiOrder :: "nat \<Rightarrow> int"
  fiGoRoutines :: int
  fiMemStats :: MemStats
  fiProcess :: "process_readings option"
  fiConns :: "connection list option"
  fiProcs :: "proc list option"
  fiVersion :: "string option"

definition disk_alerts :: "SystemSnapshot \<Rightarrow> DiskAlert list" where
  "disk_alerts snap = map (\<lambda>d. \<lparr>daMountpoint = dsMountpoint d, daPercent = dsPercent d\<rparr>) (syDisks snap)"

definition url_alert :: "Summary \<Rightarrow> URLAlert" where
  "url_alert m =
     \<lparr>uaID = ucID (smCheck m), uaURL = ucURL (smCheck m), uaLabel = ucLabel (smCheck m),
      uaUp = (case smLastResult m of None \<Rightarrow> True | Some r \<Rightarrow> rsUp r)\<rparr>"

definition all_metrics :: "SystemSnapshot \<Rightarrow> Summary list \<Rightarrow> AllMetrics" where
  "all_metrics snap summs =
     \<lparr>mCPUPercent = syCPUPercent snap, mRAMPercent = syMemPercent snap, mSwapPercent = sySwapPercent snap,
      mDisks = disk_alerts snap, mURLStats = map url_alert summs\<rparr>"

definition post_alerts :: "(payload \<Rightarrow> string option) \<Rightarrow> Alert list \<Rightarrow> Broker \<Rightarrow> Broker" where
  "post_alerts marshal fired b = fold (\<lambda>a. BroadcastJSON marshal ''alert'' (AlertPayload a)) fired b"

definition fast_tick :: "(payload \<Rightarrow> string option) \<Rightarrow> fast_input \<Rightarrow> process \<Rightarrow> process option" where
  "fast_tick marshal fi p =
     (let s = psServer p in
      case time_Now (svWorld s) of (t1, w1) \<Rightarrow>
      case metrics_Collect (fiConvert fi) (fiOrder fi) (fiReadings fi) t1 (psCollector p) of (sysnap, collector) \<Rightarrow>
      case time_Now w1 of (t2, w2) \<Rightarrow>
      case time_Now w2 of (t3, w3) \<Rightarrow>
      let appSnap = CollectApp (psStartTime p) t2 t3 (fiGoRoutines fi) (fiMemStats fi) (fiProcess fi) in
      case time_Now w3 of (t4, w4) \<Rightarrow>
      case CollectNetwork (fiConns fi) t4 of
        None \<Rightarrow> None
      | Some netSnap \<Rightarrow>
          (case Tunnel.Collect (fiProcs fi) (fiVersion fi) (psDetector p) w4 of (tunnelStatus, detector, w5) \<Rightarrow>
           case Evaluate (all_metrics sysnap (Summaries (fiOrder fi) (svChecker s))) (svEngine s) w5 of
             ((fired, _), engine, w6) \<Rightarrow>
               let b1 = post_alerts marshal fired (svBroker s);
                   b2 = BroadcastJSON marshal ''metrics'' (MetricsPayload sysnap appSnap netSnap) b1;
                   b3 = BroadcastJSON marshal ''tunnel'' (TunnelPayload tunnelStatus) b2
               in Some (p\<lparr>psServer := UpdateLatest
                            (no_data\<lparr>ltSystem := Some sysnap, ltApp := Some appSnap, ltNetwork := Some netSnap,
                                     ltTunnel := Some tunnelStatus\<rparr>)
                            (s\<lparr>svEngine := engine, svBroker := b3, svWorld := w6\<rparr>),
                          psCollector := collector, psDetector := detector\<rparr>)))"

section \<open>The slow tick\<close>

record slow_input =
  siLocation :: location
  siLogFile :: log_file
  siApt :: "string option"
  siSystemctl :: bool
  siOutput :: "string \<Rightarrow> string option"
  siSince :: "string \<Rightarrow> time option"

definition slow_tick :: "(payload \<Rightarrow> string option) \<Rightarrow> slow_input \<Rightarrow> process \<Rightarrow> process" where
  "slow_tick marshal si p =
     (let s = psServer p in
      case parse (siLocation si) (siLogFile si) (psParser p) (svWorld s) of (_, parser, w1) \<Rightarrow>
      case Snapshot parser (siApt si) w1 of ((secSnap, _), w2) \<Rightarrow>
      case time_Now w2 of (now, w3) \<Rightarrow>
      let svcSnap = services_Collect (siSince si) (siSystemctl si) (siOutput si) (psServices p) now;
          b = BroadcastJSON marshal ''services'' (ServicesPayload svcSnap) (svBroker s)
      in p\<lparr>psServer := UpdateLatest (no_data\<lparr>ltSecurity := Some secSnap, ltServices := Some svcSnap\<rparr>)
             (s\<lparr>svBroker := b, svWorld := w3\<rparr>), psParser := parser\<rparr>)"

section \<open>Purging and relaying\<close>

definition purge_tick :: "process \<Rightarrow> process" where
  "purge_tick p = p\<lparr>psServer := (psServer p)\<lparr>svWorld := snd (Purge (svWorld (psServer p)))\<rparr>\<rparr>"

text \<open>One result received from the checker's channel, if there is one.\<close>

definition relayURLResults :: "(payload \<Rightarrow> string option) \<Rightarrow> process \<Rightarrow> process" where
  "relayURLResults marshal p =
     (let s = psServer p; c = svChecker s
      in case ResultCh c of
           [] \<Rightarrow> p
         | r # rs \<Rightarrow> p\<lparr>psServer := s\<lparr>svChecker := c\<lparr>ResultCh := rs\<rparr>,
                        svBroker := BroadcastJSON marshal ''url_result'' (ResultPayload r) (svBroker s)\<rparr>\<rparr>)"

section \<open>Startup\<close>

definition displayAddr :: "string \<Rightarrow> int \<Rightarrow> string" where
  "displayAddr host port =
     (let h = TrimSpace host
      in (if h \<in> {[], ''0.0.0.0'', ''::'', ''[::]''} then ''127.0.0.1'' else h) @ '':'' @ format_int port)"

text \<open>At a signal \<open>close(done)\<close> ends the loop of the broker, and \<open>cancel()\<close> ends context 0: it joins the set of
  contexts that are done, and with it end the tickers, the relay and the goroutines of the checks started at startup.
  \<open>Shutdown\<close> then waits ten seconds for the handlers that still run.\<close>

definition main_stop :: "nat set \<Rightarrow> process \<Rightarrow> nat set \<times> process" where
  "main_stop ended p = (insert 0 ended, p\<lparr>psServer := (psServer p)\<lparr>svBroker := (svBroker (psServer p))\<lparr>running := False\<rparr>\<rparr>\<rparr>)"

datatype startup_failure = Flags failure | OpenDatabase db_error

text \<open>Errors of \<open>LoadThresholds\<close> and \<open>Start\<close> are logged only. The check goroutines get context 0.\<close>

definition main_start :: "(string \<Rightarrow> string + string) \<Rightarrow> (string \<Rightarrow> string option) \<Rightarrow> (string \<Rightarrow> bool) \<Rightarrow> string list \<Rightarrow> time
    \<Rightarrow> world \<Rightarrow> startup_failure + Config \<times> process" where
  "main_start gen mkdir stat_ok args startTime w =
     (case ParseFlags gen mkdir args of
        Inl e \<Rightarrow> Inl (Flags e)
      | Inr cfg \<Rightarrow>
          (case storage_Open (cfDataDir cfg @ ''/monitor.db'') w of
             (Inl e, w1) \<Rightarrow> Inl (OpenDatabase e)
           | (Inr _, w1) \<Rightarrow>
               (case LoadThresholds NewEngine w1 of (_, engine, w2) \<Rightarrow>
                case Start 0 NewChecker w2 of (_, checker, w3) \<Rightarrow>
                  Inr (cfg,
                    \<lparr>psServer = \<lparr>svChecker = checker, svEngine = engine, svBroker = NewBroker, svLatest = no_data,
                                 svWorld = w3, svAccessLog = []\<rparr>,
                     psCollector = NewCollector, psDetector = NewDetector, psParser = newParser stat_ok,
                     psServices = services_NewMonitor (cfServices cfg), psStartTime = startTime\<rparr>))))"

end
