(* ===== verification/Storage_Props.thy ===== *)
theory Storage_Props
  imports Storage_Facts
begin

text \<open>
  The storage layer as a transition system (any call, any verdict of the engine) and its
  properties: well-formed tables in every reachable world, round trips, the selections the
  queries return, retention, uptime and threshold persistence.
\<close>

section \<open>Every call of the layer\<close>

inductive storage_step :: "world \<Rightarrow> world \<Rightarrow> bool" where
  st_open: "storage_step w (snd (storage_Open path w))"
| st_purge: "storage_step w (snd (Purge w))"
| st_insert_alert: "storage_step w (snd (InsertAlert a w))"
| st_resolve_alert: "storage_step w (snd (ResolveAlert i t w))"
| st_acknowledge_alert: "storage_step w (snd (AcknowledgeAlert i w))"
| st_active_alerts: "storage_step w (snd (ActiveAlerts w))"
| st_recent_alerts: "storage_step w (snd (RecentAlerts n w))"
| st_insert_check: "storage_step w (snd (InsertURLCheck u w))"
| st_update_check: "storage_step w (snd (UpdateURLCheck u w))"
| st_delete_check: "storage_step w (snd (DeleteURLCheck i w))"
| st_list_checks: "storage_step w (snd (ListURLChecks w))"
| st_get_check: "storage_step w (snd (GetURLCheck i w))"
| st_insert_result: "storage_step w (snd (InsertURLResult r w))"
| st_history: "storage_step w (snd (URLResultHistory i n w))"
| st_uptime: "storage_step w (snd (URLUptime i t w))"
| st_insert_ssh: "storage_step w (snd (InsertSSHEvent e w))"
| st_recent_ssh: "storage_step w (snd (RecentSSHEvents n w))"
| st_failed_ssh: "storage_step w (snd (FailedSSHByIP t w))"
| st_insert_tunnel: "storage_step w (snd (InsertTunnelEvent v w))"
| st_recent_tunnel: "storage_step w (snd (RecentTunnelEvents n w))"
| st_get_thresholds: "storage_step w (snd (GetThresholds w))"
| st_set_threshold: "storage_step w (snd (SetThreshold k v w))"
| st_clock: "storage_step w (snd (time_Now w))"

definition fresh_db :: "world \<Rightarrow> bool" where
  "fresh_db w \<longleftrightarrow> wdb w = empty_db"

lemma exec_all_preserves:
  assumes "\<And>s d u d'. s \<in> set ss \<Longrightarrow> P d \<Longrightarrow> s d = Inr (u, d') \<Longrightarrow> P d'" and "P (wdb w)"
  shows "P (wdb (snd (exec_all ss w)))"
  using assms
proof (induction ss arbitrary: w)
  case (Cons s ss)
  obtain r w' where r: "exec s w = (r, w')" by (cases "exec s w")
  have "P (wdb w')" using exec_preserves [of s w P] Cons.prems r by (metis list.set_intros(1) snd_conv)
  with Cons.IH [of w'] Cons.prems(1) r show ?case by (auto split: sum.split)
qed simp

lemma migrate_wf: "db_wf (wdb w) \<Longrightarrow> db_wf (wdb (snd (migrate w)))"
  unfolding migrate_def by (rule exec_preserves) (auto simp: db_wf_def keys_distinct_seed)

lemma storage_Open_wf: "db_wf (wdb w) \<Longrightarrow> db_wf (wdb (snd (storage_Open path w)))"
proof -
  assume wf: "db_wf (wdb w)"
  obtain r w1 where r: "exec (\<lambda>d. Inr (dsn path, d)) w = (r, w1)" by (cases "exec (\<lambda>d. Inr (dsn path, d)) w")
  have "db_wf (wdb (snd (exec (\<lambda>d. Inr (dsn path, d)) w)))" by (rule exec_preserves) (use wf in auto)
  with r have "db_wf (wdb w1)" by simp
  with r migrate_wf [of w1] show ?thesis
    by (cases "migrate w1") (auto simp: storage_Open_def split: sum.split)
qed

lemma purge_stmts_wf: "s \<in> set (purge_stmts n) \<Longrightarrow> db_wf d \<Longrightarrow> s d = Inr (u, d') \<Longrightarrow> db_wf d'"
  by (auto simp: purge_stmts_def dest!: sql_wf(9-12) [rotated])

lemma Purge_wf: "db_wf (wdb w) \<Longrightarrow> db_wf (wdb (snd (Purge w)))"
proof -
  assume "db_wf (wdb w)"
  moreover have "Purge w = exec_all (purge_stmts (Unix (fst (time_Now w)))) (snd (time_Now w))"
    by (simp add: Purge_def split_beta)
  ultimately show ?thesis
    by (metis exec_all_preserves [where P = db_wf] purge_stmts_wf time_Now_frame(1))
qed

lemma query_wf: "db_wf (wdb w) \<Longrightarrow> db_wf (wdb (snd (query sel scan w)))"
  by simp

lemmas call_defs = InsertAlert_def ResolveAlert_def AcknowledgeAlert_def ActiveAlerts_def
  RecentAlerts_def InsertURLCheck_def UpdateURLCheck_def DeleteURLCheck_def ListURLChecks_def
  GetURLCheck_def InsertURLResult_def URLResultHistory_def URLUptime_def InsertSSHEvent_def
  RecentSSHEvents_def FailedSSHByIP_def InsertTunnelEvent_def RecentTunnelEvents_def SetThreshold_def

lemma GetThresholds_frame [simp, world_frame]:
  "wdb (snd (GetThresholds w)) = wdb w" "clock (snd (GetThresholds w)) = clock w"
  "verdicts (snd (GetThresholds w)) = stream_tail (verdicts w)"
  "printable (snd (GetThresholds w)) = printable w"
  by (simp_all add: GetThresholds_def split: prod.split) (metis query_frame snd_conv)+

lemma storage_step_wf: "storage_step w w' \<Longrightarrow> db_wf (wdb w) \<Longrightarrow> db_wf (wdb w')"
  by (induction rule: storage_step.induct)
    (auto simp: call_defs storage_Open_wf Purge_wf intro!: exec_preserves [where P = db_wf]
      dest!: sql_wf [rotated] sql_update_check_wf [rotated] sql_delete_check_wf [rotated])

lemma exec_healthy_out: "exec stmt w = (r, w') \<Longrightarrow> healthy w \<Longrightarrow> healthy w'"
  by (metis healthy_exec snd_conv)

lemma exec_all_healthy: "healthy w \<Longrightarrow> healthy (snd (exec_all ss w))"
proof (induction ss arbitrary: w)
  case (Cons s ss)
  obtain r w' where r: "exec s w = (r, w')" by (cases "exec s w")
  have "healthy w'" using healthy_exec [OF Cons.prems, of s] r by simp
  with Cons.IH r show ?case by (auto split: sum.split)
qed simp

lemma Purge_healthy: "healthy w \<Longrightarrow> healthy (snd (Purge w))"
  by (simp add: Purge_def split_beta exec_all_healthy)

lemma storage_Open_healthy: "healthy w \<Longrightarrow> healthy (snd (storage_Open path w))"
  by (auto simp: storage_Open_def migrate_def split: prod.split sum.split dest: exec_healthy_out)

lemma GetThresholds_healthy: "healthy w \<Longrightarrow> healthy (snd (GetThresholds w))"
  by (rule healthy_tail) simp_all

lemma storage_step_healthy: "storage_step w w' \<Longrightarrow> healthy w \<Longrightarrow> healthy w'"
  by (induction rule: storage_step.induct)
    (auto simp: call_defs storage_Open_healthy Purge_healthy GetThresholds_healthy)

interpretation storage_sys: invariant_system fresh_db storage_step "\<lambda>w. db_wf (wdb w)"
  by unfold_locales (auto simp: fresh_db_def intro: storage_step_wf)

section \<open>Properties\<close>

text \<open>
  C12: in every world the storage layer can reach from an empty database, whatever the engine
  answers, the ids and the URLs of the checks are distinct, the ids of the alerts are distinct,
  every stored result belongs to an existing check (the foreign key), and no threshold is
  stored twice.
\<close>

theorem storage_reachable_wf:
  assumes "reach fresh_db storage_step w"
  shows "distinct (map ur_id (checks_tbl (wdb w))) \<and> distinct (map ur_url (checks_tbl (wdb w))) \<and>
    distinct (map ar_id (alerts_tbl (wdb w))) \<and>
    (\<forall>r \<in> set (results_tbl (wdb w)). \<exists>c \<in> set (checks_tbl (wdb w)). ur_id c = rr_check_id r) \<and>
    distinct (map fst (thresholds_tbl (wdb w)))"
  using storage_sys.inv_reach [OF assms]
  by (simp add: db_wf_def ids_ok_def keys_distinct_def image_iff) metis

definition sample_check :: URLCheck where
  "sample_check =
     \<lparr>ucID = 0, ucURL = ''http://a'', ucLabel = ''a'', ucIntervalSeconds = 60, ucTimeoutSeconds = 10,
      ucEnabled = True, ucCreatedAt = 1500000000\<rparr>"

lemma storage_reachable_wf_witness:
  "distinct (map ur_url (checks_tbl (wdb (snd (InsertURLCheck sample_check (fresh_world 0))))))"
proof -
  have "reach fresh_db storage_step (fresh_world 0)"
    by (rule reach_init) (simp add: fresh_db_def fresh_world_def)
  then have "reach fresh_db storage_step (snd (InsertURLCheck sample_check (fresh_world 0)))"
    by (rule reach_step) (rule st_insert_check)
  from storage_reachable_wf [OF this] show ?thesis by blast
qed

lemma filter_new_row:
  "ids_ok rid n rs \<Longrightarrow> rid r = n + 1 \<Longrightarrow> filter (\<lambda>x. rid x = n + 1) (rs @ [r]) = [r]"
  by (fastforce simp: ids_ok_def filter_empty_conv)

text \<open>
  A check that was inserted is read back by its id with every field, except that the
  creation time has been cut to the second.
\<close>

theorem url_check_roundtrip:
  assumes h: "healthy w" and wf: "db_wf (wdb w)" and ins: "InsertURLCheck u w = (Inr i, w1)"
  shows "fst (GetURLCheck i w1) = Inr (u\<lparr>ucID := i, ucCreatedAt := time_Unix (Unix (ucCreatedAt u))\<rparr>)"
proof -
  let ?r = "\<lparr>ur_id = checks_seq (wdb w) + 1, ur_url = ucURL u, ur_label = ucLabel u,
     ur_interval_seconds = ucIntervalSeconds u, ur_timeout_seconds = ucTimeoutSeconds u,
     ur_enabled = int_of_bool (ucEnabled u), ur_created_at = Unix (ucCreatedAt u)\<rparr>"
  have "sql_insert_check u (wdb w) = Inr (i, wdb w1)" using ins by (auto simp: InsertURLCheck_def dest: exec_Inr)
  then have i: "i = checks_seq (wdb w) + 1" and t: "checks_tbl (wdb w1) = checks_tbl (wdb w) @ [?r]"
    by (auto simp: sql_insert_check_def Let_def split: if_splits dest!: sym [of "db.checks_tbl_update _ _"])
  have "filter (\<lambda>r. ur_id r = i) (checks_tbl (wdb w1)) = [?r]"
    unfolding t i by (rule filter_new_row) (use wf in \<open>auto simp: db_wf_def\<close>)
  then have one: "sql_get_check i rank (wdb w1) = [?r]" for rank by (simp add: sql_get_check_def)
  have "healthy w1" using h ins by (metis InsertURLCheck_def healthy_exec snd_conv)
  then obtain w2 where "query (sql_get_check i) scan_check w1 = (([scan_check ?r], None), w2)"
    by (rule query_healthy [where sel = "sql_get_check i" and scan = scan_check]) (simp add: one)
  then show ?thesis
    by (cases u) (simp add: GetURLCheck_def query_row_def scan_check_def i int_of_bool_def)
qed

lemma url_check_roundtrip_witness:
  "InsertURLCheck sample_check (fresh_world 0) =
     (Inr 1, snd (InsertURLCheck sample_check (fresh_world 0))) \<and>
   fst (GetURLCheck 1 (snd (InsertURLCheck sample_check (fresh_world 0)))) =
     Inr (sample_check\<lparr>ucID := 1, ucCreatedAt := 1000000000\<rparr>)"
proof -
  have ins: "InsertURLCheck sample_check (fresh_world 0) =
     (Inr 1, snd (InsertURLCheck sample_check (fresh_world 0)))"
    by (simp add: InsertURLCheck_def exec_def sql_insert_check_def fresh_world_def empty_db_def Let_def)
  have "db_wf (wdb (fresh_world 0))" by (simp add: fresh_world_def)
  from url_check_roundtrip [OF healthy_fresh this ins] ins show ?thesis
    by (simp add: sample_check_def time_Unix_def Unix_def Second_def)
qed

text \<open>A database with two checks, and results of both.\<close>

definition check_row :: "int \<Rightarrow> string \<Rightarrow> url_checks_row" where
  "check_row i url = \<lparr>ur_id = i, ur_url = url, ur_label = [], ur_interval_seconds = 60, ur_timeout_seconds = 10,
     ur_enabled = 1, ur_created_at = 0\<rparr>"

definition result_row :: "int \<Rightarrow> int \<Rightarrow> int \<Rightarrow> int \<Rightarrow> url_results_row" where
  "result_row i c t up = \<lparr>rr_id = i, rr_check_id = c, rr_checked_at = t, rr_up = up, rr_status_code = None,
     rr_latency_ms = None, rr_error = None\<rparr>"

definition two_checks :: world where
  "two_checks = (fresh_world 0)\<lparr>wdb := empty_db\<lparr>
     checks_tbl := [check_row 1 ''u'', check_row 2 ''v''], checks_seq := 2,
     results_tbl := [result_row 1 1 10 1, result_row 2 1 30 0, result_row 3 2 15 1, result_row 4 1 20 1], results_seq := 4\<rparr>\<rparr>"

lemma two_checks_ok:
  "healthy two_checks" "db_wf (wdb two_checks)"
  "checks_tbl (wdb two_checks) = [check_row 1 ''u'', check_row 2 ''v'']"
  "results_tbl (wdb two_checks) = [result_row 1 1 10 1, result_row 2 1 30 0, result_row 3 2 15 1, result_row 4 1 20 1]"
  by (simp_all add: two_checks_def healthy_def fresh_world_def db_wf_def ids_ok_def empty_db_def check_row_def result_row_def
      keys_distinct_def)

text \<open>The result a row is read as: the time in seconds, \<open>up\<close> a boolean.\<close>

definition read_as :: "url_results_row \<Rightarrow> URLResult \<Rightarrow> bool" where
  "read_as r x \<longleftrightarrow> urID x = rr_id r \<and> urCheckID x = rr_check_id r \<and> urCheckedAt x = rr_checked_at r * Second \<and>
     (urUp x \<longleftrightarrow> rr_up r = 1) \<and> urStatusCode x = rr_status_code r \<and> urLatencyMS x = rr_latency_ms r \<and> urError x = rr_error r"

text \<open>
  C17: the history of a check. A database that serves the call returns as many results of that
  check as there are, up to \<open>limit\<close>, and no other rows: the rows returned and the rows left out are together exactly the
  stored results of the check. They come newest first, and none that was left out is newer than one returned.
\<close>

theorem url_history_latest:
  fixes w :: world and i n :: int
  defines "stored \<equiv> filter (\<lambda>r. rr_check_id r = i) (results_tbl (wdb w))"
  assumes "healthy w" and "0 \<le> n"
  shows "\<exists>xs rs out w'. URLResultHistory i n w = ((xs, None), w') \<and> list_all2 read_as rs xs \<and>
    mset rs + mset out = mset stored \<and> length rs = min (nat n) (length stored) \<and>
    sorted_wrt (\<lambda>a b. rr_checked_at b \<le> rr_checked_at a) rs \<and>
    (\<forall>r \<in> set rs. \<forall>q \<in> set out. rr_checked_at q \<le> rr_checked_at r)"
proof -
  obtain rank where q: "URLResultHistory i n w =
      ((map scan_result (sql_history i n rank (wdb w)), None), w\<lparr>verdicts := stream_tail (verdicts w)\<rparr>)"
    using query_healthy [where sel = "sql_history i n" and scan = scan_result, OF assms(2)]
    by (auto simp: URLResultHistory_def)
  let ?rs = "sql_history i n rank (wdb w)"
  have rs: "?rs = limit_rows n (order_by (\<lambda>r. - rr_checked_at r) rank stored)" by (simp add: sql_history_def stored_def)
  obtain out where out: "mset ?rs + mset out = mset stored" "length ?rs = min (nat n) (length stored)"
    "sorted (map (\<lambda>r. - rr_checked_at r) ?rs)" "\<forall>r \<in> set ?rs. \<forall>q \<in> set out. - rr_checked_at r \<le> - rr_checked_at q"
    unfolding rs by (rule limited_selection [OF assms(3)])
  have "sorted_wrt (\<lambda>a b. rr_checked_at b \<le> rr_checked_at a) ?rs" using out(3) by (simp add: sorted_map)
  moreover have "list_all2 read_as ?rs (map scan_result ?rs)"
    by (simp add: list_all2_map2 list_all2_same read_as_def scan_result_def time_Unix_def)
  ultimately show ?thesis using q out by auto
qed

lemma url_history_latest_witness:
  "\<exists>xs w'. URLResultHistory 1 2 two_checks = ((xs, None), w') \<and> length xs = 2"
  using url_history_latest [OF two_checks_ok(1), of 2 1] by (auto simp: two_checks_ok result_row_def dest: list_all2_lengthD)

text \<open>
  C16: deleting a check. When the deletion of check \<open>i\<close> succeeds, then for every caller, whatever the database
  answers to it: the check is not found, listed, or given a result, and its history and uptime are empty;
  what the database says of any other check is what it said before; no other table has changed; and the id of the
  check, if there was one, is not given to a later check.
\<close>

theorem delete_check_cascades:
  fixes v w w' :: world
  assumes wf: "db_wf (wdb w)" and del: "DeleteURLCheck i w = (Inr u, w')"
  defines "before \<equiv> v\<lparr>wdb := wdb w\<rparr>" and "after \<equiv> v\<lparr>wdb := wdb w'\<rparr>"
  shows "isl (fst (GetURLCheck i after)) \<and> fst (fst (URLResultHistory i n after)) = [] \<and>
    fst (URLUptime i t after) \<in> range Inl \<union> {Inr (Fin 0)} \<and>
    (\<forall>r. urCheckID r = i \<longrightarrow> isl (fst (InsertURLResult r after)) \<and> wdb (snd (InsertURLResult r after)) = wdb w') \<and>
    (\<forall>us. fst (ListURLChecks after) = (us, None) \<longrightarrow> ucID ` set us = ur_id ` set (checks_tbl (wdb w)) - {i}) \<and>
    (\<forall>j. j \<noteq> i \<longrightarrow> fst (GetURLCheck j after) = fst (GetURLCheck j before) \<and>
       fst (URLResultHistory j n after) = fst (URLResultHistory j n before) \<and> fst (URLUptime j t after) = fst (URLUptime j t before)) \<and>
    (wdb w')\<lparr>checks_tbl := checks_tbl (wdb w), results_tbl := results_tbl (wdb w)\<rparr> = wdb w \<and>
    (i \<in> ur_id ` set (checks_tbl (wdb w)) \<longrightarrow> (\<forall>ch k. fst (InsertURLCheck ch after) = Inr k \<longrightarrow> i < k))"
proof -
  let ?cs = "checks_tbl (wdb w)" and ?rs = "results_tbl (wdb w)"
  have d: "wdb w' = (wdb w)\<lparr>checks_tbl := filter (\<lambda>r. ur_id r \<noteq> i) ?cs, results_tbl := filter (\<lambda>r. rr_check_id r \<noteq> i) ?rs\<rparr>"
    using del unfolding DeleteURLCheck_def by (rule exec_state) (simp add: sql_delete_check_def)
  have gone: "filter (\<lambda>r. ur_id r = i) (checks_tbl (wdb w')) = []" "filter (\<lambda>r. rr_check_id r = i) (results_tbl (wdb w')) = []"
    "uptime_rows i s (wdb w') = []" for s by (auto simp: d uptime_rows_def filter_empty_conv)
  have kept: "filter (\<lambda>r. ur_id r = j) (checks_tbl (wdb w')) = filter (\<lambda>r. ur_id r = j) ?cs"
    "filter (\<lambda>r. rr_check_id r = j) (results_tbl (wdb w')) = filter (\<lambda>r. rr_check_id r = j) ?rs"
    "uptime_rows j s (wdb w') = uptime_rows j s (wdb w)" if "j \<noteq> i" for j s
    using that by (auto simp: d uptime_rows_def intro!: filter_cong)
  have none: "isl (fst (GetURLCheck i after))" "fst (fst (URLResultHistory i n after)) = []"
    "fst (URLUptime i t after) \<in> range Inl \<union> {Inr (Fin 0)}"
    by (auto simp: after_def GetURLCheck_def URLResultHistory_def URLUptime_def query_row_def query_def Let_def sql_get_check_def
        sql_history_def gone limit_rows_def order_by_def sql_uptime_def take_Cons' split: verdict.split option.split)
  have same: "fst (GetURLCheck j after) = fst (GetURLCheck j before)"
    "fst (URLResultHistory j n after) = fst (URLResultHistory j n before)" "fst (URLUptime j t after) = fst (URLUptime j t before)"
    if "j \<noteq> i" for j
    by (auto simp: after_def before_def GetURLCheck_def URLResultHistory_def URLUptime_def query_row_def query_def Let_def sql_get_check_def
        sql_history_def kept [OF that] split: verdict.split option.split list.split)
  have refused: "isl (fst (InsertURLResult r after)) \<and> wdb (snd (InsertURLResult r after)) = wdb w'" if "urCheckID r = i" for r
  proof -
    have "urCheckID r \<notin> ur_id ` set (checks_tbl (wdb after))" using that by (auto simp: after_def d)
    then show ?thesis by (cases rule: exec_cases [of "sql_insert_result r" after])
        (auto simp: InsertURLResult_def sql_insert_result_def after_def)
  qed
  have listed: "ucID ` set us = ur_id ` set ?cs - {i}" if "fst (ListURLChecks after) = (us, None)" for us
    using that by (auto simp: ListURLChecks_def query_def Let_def sql_list_checks_def after_def d scan_check_def image_image
        split: verdict.splits option.splits)
  have fresh: "i < k" if "i \<in> ur_id ` set ?cs" "fst (InsertURLCheck ch after) = Inr k" for ch k
  proof -
    have "i \<le> checks_seq (wdb w)" using wf that(1) by (auto simp: db_wf_def ids_ok_def)
    moreover have "InsertURLCheck ch after = (Inr k, snd (InsertURLCheck ch after))" using that(2) by (metis prod.collapse)
    then have "k = checks_seq (wdb w) + 1"
      by (auto simp: InsertURLCheck_def sql_insert_check_def Let_def after_def d dest!: exec_Inr split: if_splits)
    ultimately show ?thesis by simp
  qed
  have "(wdb w')\<lparr>checks_tbl := ?cs, results_tbl := ?rs\<rparr> = wdb w" by (simp add: d)
  with none same refused listed fresh show ?thesis by blast
qed

lemma delete_check_cascades_witness:
  "\<exists>w'. DeleteURLCheck 1 two_checks = (Inr (), w') \<and> isl (fst (GetURLCheck 1 w')) \<and>
     fst (URLResultHistory 2 5 w') = fst (URLResultHistory 2 5 (w'\<lparr>wdb := wdb two_checks\<rparr>)) \<and>
     length (fst (fst (URLResultHistory 2 5 w'))) = 1"
proof -
  obtain w' where w': "DeleteURLCheck 1 two_checks = (Inr (), w')"
    by (simp add: DeleteURLCheck_def exec_def sql_delete_check_def two_checks_def fresh_world_def)
  have "length (fst (fst (URLResultHistory 2 5 (w'\<lparr>wdb := wdb two_checks\<rparr>)))) = 1"
    using w' by (auto simp: DeleteURLCheck_def exec_def sql_delete_check_def two_checks_def fresh_world_def URLResultHistory_def
        query_def sql_history_def result_row_def limit_rows_def stream_tail_def)
  moreover note delete_check_cascades [OF two_checks_ok(2) w', of w' 5 0]
  ultimately show ?thesis using w' by auto
qed

text \<open>The rows past their retention.\<close>

definition expired_alert :: "int \<Rightarrow> alerts_row \<Rightarrow> bool" where
  "expired_alert now r = (case ar_resolved_at r of None \<Rightarrow> False | Some t \<Rightarrow> t < now - 14 * 86400)"

definition expired_result :: "int \<Rightarrow> url_results_row \<Rightarrow> bool" where
  "expired_result now r = (rr_checked_at r < now - 7 * 86400)"

definition expired_ssh :: "int \<Rightarrow> ssh_row \<Rightarrow> bool" where
  "expired_ssh now r = (sr_occurred_at r < now - 30 * 86400)"

definition expired_tunnel :: "int \<Rightarrow> tunnel_row \<Rightarrow> bool" where
  "expired_tunnel now r = (tr_occurred_at r < now - 30 * 86400)"

lemmas expired_defs = expired_alert_def expired_result_def expired_ssh_def expired_tunnel_def

definition purge_updates :: "int \<Rightarrow> (db \<Rightarrow> db) list" where
  "purge_updates now =
     [\<lambda>d. d\<lparr>results_tbl := filter (\<lambda>r. \<not> expired_result now r) (results_tbl d)\<rparr>,
      \<lambda>d. d\<lparr>ssh_tbl := filter (\<lambda>r. \<not> expired_ssh now r) (ssh_tbl d)\<rparr>,
      \<lambda>d. d\<lparr>tunnel_tbl := filter (\<lambda>r. \<not> expired_tunnel now r) (tunnel_tbl d)\<rparr>,
      \<lambda>d. d\<lparr>alerts_tbl := filter (\<lambda>r. \<not> expired_alert now r) (alerts_tbl d)\<rparr>]"

lemma purge_stmts_updates: "purge_stmts now = map (\<lambda>f d. Inr ((), f d)) (purge_updates now)"
  by (simp only: purge_stmts_def purge_updates_def fun_eq_iff purge_results_def purge_ssh_def
      purge_tunnel_def purge_alerts_def expired_defs list.map list.inject simp_thms)

lemma exec_all_updates:
  "\<exists>k \<le> length fs. wdb (snd (exec_all (map (\<lambda>f d. Inr ((), f d)) fs) w)) = fold (\<lambda>f. f) (take k fs) (wdb w)
     \<and> (isl (fst (exec_all (map (\<lambda>f d. Inr ((), f d)) fs) w)) \<or> k = length fs)"
proof (induction fs arbitrary: w)
  case (Cons f fs)
  let ?s = "\<lambda>d. Inr ((), f d)"
  obtain r w' where r: "exec ?s w = (r, w')" by (cases "exec ?s w")
  show ?case
  proof (cases r)
    case (Inl e)
    with r have "wdb w' = wdb w" by (auto dest: exec_Inl)
    with r Inl show ?thesis by (intro exI [of _ 0]) simp
  next
    case (Inr u)
    with r have "wdb w' = f (wdb w)" by (auto dest: exec_Inr)
    moreover obtain k where "k \<le> length fs"
      "wdb (snd (exec_all (map (\<lambda>f d. Inr ((), f d)) fs) w')) = fold (\<lambda>f. f) (take k fs) (wdb w')"
      "isl (fst (exec_all (map (\<lambda>f d. Inr ((), f d)) fs) w')) \<or> k = length fs"
      using Cons.IH by blast
    ultimately show ?thesis using r Inr by (intro exI [of _ "Suc k"]) simp
  qed
qed simp

lemma purge_prefix:
  "\<exists>k \<le> 4. wdb (snd (Purge w)) = fold (\<lambda>f. f) (take k (purge_updates (Unix (fst (time_Now w))))) (wdb w) \<and>
     (isl (fst (Purge w)) \<or> k = 4)"
proof -
  let ?fs = "purge_updates (Unix (fst (time_Now w)))"
  have P: "Purge w = exec_all (map (\<lambda>f d. Inr ((), f d)) ?fs) (snd (time_Now w))"
    by (simp add: Purge_def split_beta purge_stmts_updates)
  have four: "length ?fs = 4" by (simp add: purge_updates_def)
  show ?thesis
    using exec_all_updates [of ?fs "snd (time_Now w)"] unfolding P [symmetric] four time_Now_frame .
qed

lemma prefix_cases_4: "k \<le> 4 \<Longrightarrow> k = 0 \<or> k = 1 \<or> k = 2 \<or> k = 3 \<or> k = (4::nat)"
  by auto

lemma purge_alert_rows:
  "alerts_tbl (wdb (snd (Purge w))) = alerts_tbl (wdb w) \<or>
   alerts_tbl (wdb (snd (Purge w))) =
     filter (\<lambda>r. \<not> expired_alert (Unix (fst (time_Now w))) r) (alerts_tbl (wdb w))"
proof -
  obtain k where k: "k \<le> 4" and
    d: "wdb (snd (Purge w)) = fold (\<lambda>f. f) (take k (purge_updates (Unix (fst (time_Now w))))) (wdb w)"
    using purge_prefix [of w] by blast
  show ?thesis using prefix_cases_4 [OF k] unfolding d by (auto simp: purge_updates_def numeral_eq_Suc)
qed

text \<open>
  C15: whatever the engine does during a purge, the rows it loses are old: results and events
  past their retention, and alerts resolved more than fourteen days ago (an unresolved alert
  is never purged). When the purge succeeds, exactly the rows that are not old are left.
\<close>

theorem purge_loses_only_expired:
  fixes w :: world
  defines "now \<equiv> Unix (fst (time_Now w))" and "d \<equiv> wdb w" and "d' \<equiv> wdb (snd (Purge w))"
  shows "(alerts_tbl d' = alerts_tbl d \<or> alerts_tbl d' = filter (\<lambda>r. \<not> expired_alert now r) (alerts_tbl d)) \<and>
    (results_tbl d' = results_tbl d \<or> results_tbl d' = filter (\<lambda>r. \<not> expired_result now r) (results_tbl d)) \<and>
    (ssh_tbl d' = ssh_tbl d \<or> ssh_tbl d' = filter (\<lambda>r. \<not> expired_ssh now r) (ssh_tbl d)) \<and>
    (tunnel_tbl d' = tunnel_tbl d \<or> tunnel_tbl d' = filter (\<lambda>r. \<not> expired_tunnel now r) (tunnel_tbl d)) \<and>
    checks_tbl d' = checks_tbl d \<and> thresholds_tbl d' = thresholds_tbl d \<and>
    (isl (fst (Purge w)) \<or>
     d' = d\<lparr>results_tbl := filter (\<lambda>r. \<not> expired_result now r) (results_tbl d),
           ssh_tbl := filter (\<lambda>r. \<not> expired_ssh now r) (ssh_tbl d),
           tunnel_tbl := filter (\<lambda>r. \<not> expired_tunnel now r) (tunnel_tbl d),
           alerts_tbl := filter (\<lambda>r. \<not> expired_alert now r) (alerts_tbl d)\<rparr>)"
proof -
  obtain k where k: "k \<le> 4" "d' = fold (\<lambda>f. f) (take k (purge_updates now)) d" "isl (fst (Purge w)) \<or> k = 4"
    using purge_prefix [of w] unfolding now_def d_def d'_def by blast
  show ?thesis using prefix_cases_4 [OF k(1)] k by (auto simp: purge_updates_def numeral_eq_Suc)
qed

lemma sum_up_bounds: "\<forall>r \<in> set rs. rr_up r \<in> {0, 1} \<Longrightarrow>
    0 \<le> sum_list (map rr_up rs) \<and> sum_list (map rr_up rs) \<le> int (length rs)"
  by (induction rs) auto

lemma sql_uptime_ratio:
  assumes "rs \<noteq> []" and "\<forall>r \<in> set rs. rr_up r \<in> {0, 1}" and "int (length rs) \<le> 2 ^ 45"
  shows "sql_uptime rs = float_of_rat (of_int (sum_list (map rr_up rs)) * 100 / of_int (int (length rs)))"
proof -
  let ?s = "sum_list (map rr_up rs)" and ?n = "int (length rs)"
  have s: "0 \<le> ?s" "?s \<le> ?n" "0 < ?n" using sum_up_bounds [OF assms(2)] assms(1) by auto
  have "float_of_int ?s = Fin (of_int ?s)" "float_of_int ?n = Fin (of_int ?n)"
    "float_of_int (?s * 100) = Fin (of_int (?s * 100))"
    using s assms(3) by (intro float_of_int_exact; simp)+
  then show ?thesis using assms(1) s by (simp add: sql_uptime_def float_of_int_def)
qed

lemma sql_uptime_bounds:
  assumes "\<forall>r \<in> set rs. rr_up r \<in> {0, 1}" and "int (length rs) \<le> 2 ^ 45"
  shows "Fin 0 \<le> sql_uptime rs \<and> sql_uptime rs \<le> Fin 100"
proof (cases "rs = []")
  case False
  let ?s = "sum_list (map rr_up rs)" and ?n = "int (length rs)"
  have s: "0 \<le> ?s" "?s \<le> ?n" "0 < ?n" using sum_up_bounds [OF assms(1)] False by auto
  have "(of_int ?s :: rat) * 100 / of_int ?n \<le> 100"
    using s by (simp add: divide_le_eq)
  then show ?thesis
    using float_of_rat_bounded [of "of_int ?s * 100 / of_int ?n" 100] s sql_uptime_ratio [OF False assms]
    by simp
qed (simp add: sql_uptime_def)

lemma sum_up_count: "\<forall>r \<in> set rs. rr_up r \<in> {0, 1} \<Longrightarrow> sum_list (map rr_up rs) = int (length (filter (\<lambda>r. rr_up r = 1) rs))"
  by (induction rs) auto

text \<open>
  C19: the uptime of a check is the percentage, rounded once to a float, of the results since the given time (that
  second included) that were up, among all its results since then, and 0 when there are none; it lies between 0 and
  100. The tables have at most \<open>2 ^ 45\<close> rows.
\<close>

theorem uptime_percentage:
  fixes w w' :: world and i :: int and since :: time
  assumes wf: "db_wf (wdb w)" and size: "int (length (results_tbl (wdb w))) \<le> 2 ^ 45"
    and up: "URLUptime i since w = (Inr p, w')"
  defines "probes \<equiv> length (filter (\<lambda>r. rr_check_id r = i \<and> Unix since \<le> rr_checked_at r) (results_tbl (wdb w)))"
    and "ups \<equiv> length (filter (\<lambda>r. rr_check_id r = i \<and> Unix since \<le> rr_checked_at r \<and> rr_up r = 1) (results_tbl (wdb w)))"
  shows "p = (if probes = 0 then Fin 0 else float_of_rat (100 * of_nat ups / of_nat probes)) \<and> Fin 0 \<le> p \<and> p \<le> Fin 100"
proof -
  let ?rs = "uptime_rows i (Unix since) (wdb w)"
  have p: "p = sql_uptime ?rs"
    using up by (auto simp: URLUptime_def query_row_def query_def Let_def take_Cons'
        split: verdict.splits option.splits prod.splits if_splits)
  have ok: "\<forall>r \<in> set ?rs. rr_up r \<in> {0, 1}" using wf by (auto simp: uptime_rows_def db_wf_def)
  have len: "int (length ?rs) \<le> 2 ^ 45"
    using size by (metis length_filter_le of_nat_mono order_trans uptime_rows_def)
  have n: "probes = length ?rs" by (simp add: probes_def uptime_rows_def)
  have "ups = length (filter (\<lambda>r. rr_up r = 1) ?rs)" by (simp add: ups_def uptime_rows_def conj_ac)
  then have s: "sum_list (map rr_up ?rs) = int ups" using sum_up_count [OF ok] by simp
  have "p = (if probes = 0 then Fin 0 else float_of_rat (100 * of_nat ups / of_nat probes))"
  proof (cases "?rs = []")
    case True
    then show ?thesis using n p by (simp add: sql_uptime_def)
  next
    case False
    then show ?thesis using sql_uptime_ratio [OF False ok len] n p s by (simp add: mult.commute)
  qed
  with sql_uptime_bounds [OF ok len] p show ?thesis by simp
qed

lemma uptime_percentage_witness:
  "\<exists>p w'. URLUptime 1 (20 * Second) two_checks = (Inr p, w') \<and> p = float_of_rat 50"
proof -
  obtain p w' where up: "URLUptime 1 (20 * Second) two_checks = (Inr p, w')"
    by (simp add: URLUptime_def query_row_def query_def two_checks_def fresh_world_def)
  have "int (length (results_tbl (wdb two_checks))) \<le> 2 ^ 45" by (simp add: two_checks_ok)
  from uptime_percentage [OF two_checks_ok(2) this up] up show ?thesis
    by (simp add: two_checks_ok result_row_def Unix_def Second_def)
qed

lemma map_of_seed: "map_of (seed_thresholds t) = map_of default_thresholds ++ map_of t"
proof -
  have one: "map_of (insert_or_ignore kv t) = [fst kv \<mapsto> snd kv] ++ map_of t" for kv t
  proof (cases "fst kv \<in> fst ` set t")
    case True
    then obtain v where "map_of t (fst kv) = Some v" by (metis domD dom_map_of_conv_image_fst)
    with True show ?thesis by (auto simp: insert_or_ignore_def map_add_def fun_eq_iff split: option.split)
  next
    case False
    then show ?thesis by (cases kv) (simp add: insert_or_ignore_def)
  qed
  have "map_of (fold insert_or_ignore ds t) = map_of ds ++ map_of t" for ds
  proof (induction ds arbitrary: t)
    case (Cons d ds)
    have "map_of (fold insert_or_ignore (d # ds) t) = (map_of ds ++ [fst d \<mapsto> snd d]) ++ map_of t"
      by (simp add: Cons.IH one)
    also have "map_of ds ++ [fst d \<mapsto> snd d] = map_of (d # ds)"
      by (cases d) (auto simp: fun_eq_iff)
    finally show ?case .
  qed simp
  then show ?thesis by (simp add: seed_thresholds_def)
qed

lemma GetThresholds_map:
  assumes "keys_distinct (thresholds_tbl (wdb w))" and "GetThresholds w = ((t, None), w')"
  shows "t = map_of (thresholds_tbl (wdb w)) \<and> wdb w' = wdb w"
proof -
  let ?tbl = "thresholds_tbl (wdb w)"
  obtain rank where t: "t = map_of (rev (visit rank ?tbl))"
    using assms(2) by (auto simp: GetThresholds_def query_def Let_def split: verdict.splits option.splits prod.splits)
  have "mset (map fst (rev (visit rank ?tbl))) = mset (map fst ?tbl)" by (simp flip: image_mset.compositionality)
  then have "distinct (map fst (rev (visit rank ?tbl)))"
    using assms(1) unfolding keys_distinct_def by (metis mset_eq_imp_distinct_iff)
  then have "t = map_of ?tbl" using assms(1) t by (simp add: map_of_inject_set keys_distinct_def)
  moreover have "wdb w' = wdb w" using GetThresholds_frame(1) [of w] assms(2) by simp
  ultimately show ?thesis by blast
qed

text \<open>
  C18: a threshold that was set survives a restart: after the database is opened again (which
  seeds the defaults) the stored thresholds are the defaults overridden by what was stored
  before, and by the value that was set.
\<close>

theorem threshold_survives_restart:
  assumes wf: "db_wf (wdb w)" and set: "SetThreshold k v w = (Inr u, w1)"
    and reopen: "storage_Open path w1 = (Inr x, w2)" and get: "GetThresholds w2 = ((t, None), w3)"
  shows "t = (map_of default_thresholds ++ map_of (thresholds_tbl (wdb w)))(k \<mapsto> v)"
proof -
  have w1: "wdb w1 = (wdb w)\<lparr>thresholds_tbl := AList.update k v (thresholds_tbl (wdb w))\<rparr>"
    using exec_Inr [of "sql_set_threshold k v" w u w1] set
    by (auto simp: SetThreshold_def sql_set_threshold_def split: if_splits)
  obtain s w1' where o: "exec (\<lambda>d. Inr (dsn path, d)) w1 = (Inr s, w1')" "migrate w1' = (Inr (), w2)"
    using reopen by (auto simp: storage_Open_def split: prod.splits sum.splits)
  have "wdb w1' = wdb w1" using o(1) by (auto dest: exec_Inr)
  moreover have "wdb w2 = (wdb w1')\<lparr>thresholds_tbl := seed_thresholds (thresholds_tbl (wdb w1'))\<rparr>"
    using o(2) unfolding migrate_def by (rule exec_state) (rule refl)
  ultimately have tbl: "thresholds_tbl (wdb w2) = seed_thresholds (AList.update k v (thresholds_tbl (wdb w)))"
    using w1 by simp
  then have "keys_distinct (thresholds_tbl (wdb w2))"
    using wf by (simp add: keys_distinct_seed db_wf_def)
  then have "t = map_of (thresholds_tbl (wdb w2))" using GetThresholds_map get by blast
  then show ?thesis using tbl by (simp add: map_of_seed)
qed

lemma threshold_survives_restart_witness:
  "\<exists>t w3. GetThresholds (snd (storage_Open ''x'' (snd (SetThreshold ''cpu_pct'' (Fin 50) (fresh_world 0))))) = ((t, None), w3)
     \<and> t ''cpu_pct'' = Some (Fin 50) \<and> t ''ram_pct'' = Some (Fin 85)"
proof -
  let ?w1 = "snd (SetThreshold ''cpu_pct'' (Fin 50) (fresh_world 0))"
  let ?w2 = "snd (storage_Open ''x'' ?w1)"
  have a: "SetThreshold ''cpu_pct'' (Fin 50) (fresh_world 0) = (Inr (), ?w1)"
    by (simp add: SetThreshold_def sql_set_threshold_def exec_def fresh_world_def)
  have b: "storage_Open ''x'' ?w1 = (Inr (), ?w2)"
    by (simp add: storage_Open_def migrate_def SetThreshold_def sql_set_threshold_def exec_def fresh_world_def)
  obtain t w3 where c: "GetThresholds ?w2 = ((t, None), w3)"
    by (simp add: GetThresholds_def query_def storage_Open_def migrate_def SetThreshold_def
        sql_set_threshold_def exec_def fresh_world_def)
  have "db_wf (wdb (fresh_world 0))" by (simp add: fresh_world_def)
  from threshold_survives_restart [OF this a b c] c show ?thesis
    by (auto simp: fresh_world_def empty_db_def default_thresholds_def)
qed

text \<open>The failed logins from an address in that second or later.\<close>

definition failures_from :: "string \<Rightarrow> int \<Rightarrow> world \<Rightarrow> int" where
  "failures_from ip since w = int (length (filter
     (\<lambda>r. sr_event_type r = ''failed'' \<and> since \<le> sr_occurred_at r \<and> sr_source_ip r = ip) (ssh_tbl (wdb w))))"

lemma failures_from_positive:
  "0 < failures_from ip since w \<longleftrightarrow>
     (\<exists>r \<in> set (ssh_tbl (wdb w)). sr_event_type r = ''failed'' \<and> since \<le> sr_occurred_at r \<and> sr_source_ip r = ip)"
  by (auto simp: failures_from_def filter_empty_conv)

text \<open>
  C20: the top attackers. The list has all the addresses with a failed login since the given time (that second included),
  or twenty of them if there are more; each once, with the exact number of its failed logins; the counts fall, and no
  address that is not listed has a higher one.
\<close>

theorem failed_by_ip_counts:
  assumes "FailedSSHByIP since w = ((ics, None), w')"
  shows "distinct (map icIP ics) \<and> length ics = min 20 (card {ip. 0 < failures_from ip (Unix since) w}) \<and>
    (\<forall>c \<in> set ics. icCount c = failures_from (icIP c) (Unix since) w \<and> 0 < icCount c) \<and>
    sorted_wrt (\<lambda>a b. icCount b \<le> icCount a) ics \<and>
    (\<forall>ip. ip \<notin> icIP ` set ics \<longrightarrow> (\<forall>c \<in> set ics. failures_from ip (Unix since) w \<le> icCount c))"
proof -
  let ?rs = "failed_since (Unix since) (wdb w)" and ?mk = "\<lambda>g. \<lparr>icIP = fst g, icCount = snd g\<rparr>"
  let ?f = "\<lambda>ip. failures_from ip (Unix since) w"
  obtain rank where ics: "ics = map ?mk (limit_rows 20 (order_by (\<lambda>g. - snd g) rank (ip_groups ?rs)))"
    using assms by (auto simp: FailedSSHByIP_def query_def Let_def sql_failed_by_ip_def
        split: verdict.splits option.splits)
  define gs where "gs = limit_rows 20 (order_by (\<lambda>g. - snd g) rank (ip_groups ?rs))"
  obtain out where out: "mset gs + mset out = mset (ip_groups ?rs)" "length gs = min (nat 20) (length (ip_groups ?rs))"
    "sorted (map (\<lambda>g. - snd g) gs)" "\<forall>g \<in> set gs. \<forall>h \<in> set out. - snd g \<le> - snd h"
    using limited_selection [of 20 "\<lambda>g. - snd g" rank "ip_groups ?rs"] unfolding gs_def by auto
  have ips: "sr_source_ip ` set ?rs = {ip. 0 < ?f ip}" by (auto simp: failures_from_positive failed_since_def)
  have groups: "set (ip_groups ?rs) = (\<lambda>ip. (ip, ?f ip)) ` {ip. 0 < ?f ip}"
    unfolding ips [symmetric] by (auto simp: ip_groups_def failures_from_def failed_since_def conj_ac)
  have "set gs \<union> set out = set (ip_groups ?rs)" using out(1) by (metis set_mset_mset set_mset_union)
  with groups have parts: "set gs \<union> set out = (\<lambda>ip. (ip, ?f ip)) ` {ip. 0 < ?f ip}" by simp
  have "map fst (ip_groups ?rs) = remdups (map sr_source_ip ?rs)" by (simp add: ip_groups_def comp_def)
  then have d: "distinct (map fst (ip_groups ?rs))" "length (ip_groups ?rs) = card {ip. 0 < ?f ip}"
    using arg_cong [of _ _ length] by (simp, metis distinct_card distinct_remdups ips length_map set_map set_remdups)
  have "distinct (map fst gs)"
    unfolding gs_def by (intro distinct_limit_rows distinct_map_order_by d(1))
  then have 1: "distinct (map icIP ics)" by (simp add: ics gs_def comp_def)
  have 2: "length ics = min 20 (card {ip. 0 < ?f ip})" using out(2) d(2) by (simp add: ics gs_def)
  have 3: "\<forall>c \<in> set ics. icCount c = ?f (icIP c) \<and> 0 < icCount c" 
  proof
    fix c assume "c \<in> set ics"
    then obtain g where "g \<in> set gs" "c = ?mk g" by (auto simp: ics gs_def [symmetric])
    moreover have "g \<in> (\<lambda>ip. (ip, ?f ip)) ` {ip. 0 < ?f ip}" using parts calculation(1) by blast
    ultimately show "icCount c = ?f (icIP c) \<and> 0 < icCount c" by auto
  qed
  have 4: "sorted_wrt (\<lambda>a b. icCount b \<le> icCount a) ics"
    using out(3) by (simp add: ics gs_def [symmetric] sorted_map sorted_wrt_map)
  have 5: "?f ip \<le> icCount c" if "ip \<notin> icIP ` set ics" "c \<in> set ics" for ip c
  proof (cases "0 < ?f ip")
    case True
    have "(ip, ?f ip) \<notin> set gs" using that(1) by (force simp: ics gs_def [symmetric])
    with True parts have "(ip, ?f ip) \<in> set out" by auto
    with out(4) that(2) show ?thesis by (fastforce simp: ics gs_def [symmetric])
  next
    case False
    with 3 that(2) show ?thesis by fastforce
  qed
  from 1 2 3 4 5 show ?thesis by blast
qed

text \<open>Three failed logins from two addresses, one of them too old, and an accepted one.\<close>

definition attacked :: world where
  "attacked = (fresh_world 0)\<lparr>wdb := empty_db\<lparr>ssh_tbl :=
     [\<lparr>sr_id = 1, sr_occurred_at = 5, sr_event_type = ''failed'', sr_username = None, sr_source_ip = ''5.6.7.8'', sr_port = None\<rparr>,
      \<lparr>sr_id = 2, sr_occurred_at = 10, sr_event_type = ''failed'', sr_username = None, sr_source_ip = ''1.2.3.4'', sr_port = None\<rparr>,
      \<lparr>sr_id = 3, sr_occurred_at = 11, sr_event_type = ''accepted'', sr_username = None, sr_source_ip = ''5.6.7.8'', sr_port = None\<rparr>,
      \<lparr>sr_id = 4, sr_occurred_at = 12, sr_event_type = ''failed'', sr_username = None, sr_source_ip = ''1.2.3.4'', sr_port = None\<rparr>],
     ssh_seq := 4\<rparr>\<rparr>"

lemma failed_by_ip_counts_witness:
  "\<exists>ics w'. FailedSSHByIP (10 * Second) attacked = ((ics, None), w') \<and> (\<forall>c \<in> set ics. icIP c = ''1.2.3.4'' \<and> icCount c = 2)"
proof -
  obtain ics w' where q: "FailedSSHByIP (10 * Second) attacked = ((ics, None), w')"
    by (simp add: FailedSSHByIP_def query_def attacked_def fresh_world_def)
  have f: "failures_from ip (Unix (10 * Second)) attacked = (if ip = ''1.2.3.4'' then 2 else 0)" for ip
    by (auto simp: failures_from_def attacked_def Unix_def Second_def)
  have "icIP c = ''1.2.3.4'' \<and> icCount c = 2" if "c \<in> set ics" for c
    using failed_by_ip_counts [OF q] that by (auto simp: f split: if_splits)
  with q show ?thesis by blast
qed

end
