(* ===== verification/Http_Props.thy ===== *)
theory Http_Props
  imports Http Storage_Props
begin

text \<open>
  What the API guarantees: with basic authentication no endpoint answers without the configured
  credentials; a request that only reads, or that is refused as the client's error, changes nothing; a check that was
  created is the one read back; thresholds that were put are in force and stored.
\<close>

section \<open>Routing and authentication\<close>

definition authorized :: "(string \<Rightarrow> string \<Rightarrow> bool) \<Rightarrow> Config \<Rightarrow> request \<Rightarrow> bool" where
  "authorized compare cfg rq \<longleftrightarrow> (AuthEnabled cfg \<longrightarrow> credentials_ok compare cfg rq)"

lemma serve_api:
  assumes "route (rqMethod rq) (rqPath rq) = ep" and "ep \<noteq> AssetsEP"
  shows "serve assets compare cfg rq s =
    (if authorized compare cfg rq then withLogging (handler ep) rq s else Some (Reply unauthorized, s))"
  using assms by (cases ep) (auto simp: serve_def wrap_def withBasicAuth_def authorized_def)

lemma Split_none: "c \<notin> set s \<Longrightarrow> Split s c = [s]"
  by (induction s) auto

lemma route_check:
  "CHR ''/'' \<notin> set i \<Longrightarrow> i \<noteq> [] \<Longrightarrow> route m (''/api/url-checks/'' @ i) = CheckEP i"
  by (simp add: route_def Split_none)

lemma route_fixed:
  "route m ''/api/url-checks'' = ChecksEP" "route m ''/api/thresholds'' = ThresholdsEP"
  "route ''GET'' ''/api/metrics'' = MetricsEP" "route ''POST'' ''/api/metrics'' = AssetsEP"
  by (simp_all add: route_def is_get_def)

lemma ParseFlags_auth:
  assumes "ParseFlags gen mkdir args = Inr cfg" and "parse_args args default_flags = Inr f"
    and "flBasicAuth f = user @ CHR '':'' # pass" and "CHR '':'' \<notin> set user"
  shows "cfBasicAuthUser cfg = user \<and> cfBasicAuthHash cfg \<noteq> None \<and> (\<exists>h. gen pass = Inr h \<and> cfBasicAuthHash cfg = Some h)"
  using assms by (auto simp: ParseFlags_def basic_auth_def Cut_append Let_def split: sum.splits option.splits if_splits)

text \<open>
  C7: with \<open>--basic-auth user:pass\<close> on the command line, every endpoint of the API and the event
  stream serves a request exactly when it carries that user and a password that bcrypt accepts
  for the hash of \<open>pass\<close>, such as \<open>pass\<close> itself; any other request gets 401 and changes nothing, not even the
  access log. That bcrypt accepts a password for its own hash is assumed.
\<close>

theorem api_needs_credentials:
  assumes "ParseFlags gen mkdir args = Inr cfg" and "parse_args args default_flags = Inr f"
    and "flBasicAuth f = user @ CHR '':'' # pass" and "CHR '':'' \<notin> set user"
    and bcrypt: "\<And>p h. gen p = Inr h \<Longrightarrow> compare h p"
    and "route (rqMethod rq) (rqPath rq) = ep" and "ep \<noteq> AssetsEP"
  shows "\<exists>h. gen pass = Inr h \<and> compare h pass \<and>
    serve assets compare cfg rq s =
      (if \<exists>p. rqBasicAuth rq = Some (user, p) \<and> compare h p then withLogging (handler ep) rq s
       else Some (Reply unauthorized, s))"
proof -
  obtain h where h: "gen pass = Inr h" "cfBasicAuthHash cfg = Some h" "cfBasicAuthUser cfg = user"
    using ParseFlags_auth [OF assms(1-4)] by blast
  then have "authorized compare cfg rq = (\<exists>p. rqBasicAuth rq = Some (user, p) \<and> compare h p)"
    by (auto simp: authorized_def AuthEnabled_def credentials_ok_def split: option.split)
  with h bcrypt serve_api [OF assms(6,7), of assets compare cfg s] show ?thesis by auto
qed

definition empty_server :: server where
  "empty_server = \<lparr>svChecker = NewChecker, svEngine = NewEngine, svBroker = NewBroker, svLatest = no_data,
     svWorld = fresh_world 0, svAccessLog = []\<rparr>"

definition get_request :: "string \<Rightarrow> request" where
  "get_request path = \<lparr>rqMethod = ''GET'', rqPath = path, rqLimit = [], rqBasicAuth = None, rqBody = None,
     rqCtx = 1, rqConn = ''c'', rqOrder = (\<lambda>_. 0)\<rparr>"

definition auth_config :: Config where
  "auth_config = \<lparr>cfHost = ''0.0.0.0'', cfPort = 47291, cfDataDir = ''./data'', cfBasicAuthUser = ''a'',
     cfBasicAuthHash = Some ''b:c'', cfServices = [], cfLogLevel = ''info''\<rparr>"

lemma auth_flags: "parse_args [''--basic-auth'', ''a:b:c''] default_flags = Inr (default_flags\<lparr>flBasicAuth := ''a:b:c''\<rparr>)"
  by (simp add: parse_args.simps(2) flag_name_def flag_names_def Cut_def set_flag_def)

lemma auth_config: "ParseFlags Inr (\<lambda>_. None) [''--basic-auth'', ''a:b:c''] = Inr auth_config"
  unfolding ParseFlags_def auth_flags
  by (simp add: basic_auth_def Cut_def default_flags_def auth_config_def)

lemma api_needs_credentials_witness:
  "serve (\<lambda>_. unauthorized) (=) auth_config (get_request ''/api/metrics'') empty_server = Some (Reply unauthorized, empty_server) \<and>
   serve (\<lambda>_. unauthorized) (=) auth_config ((get_request ''/api/metrics'')\<lparr>rqBasicAuth := Some (''a'', ''b:c'')\<rparr>) empty_server =
     withLogging (handler MetricsEP) ((get_request ''/api/metrics'')\<lparr>rqBasicAuth := Some (''a'', ''b:c'')\<rparr>) empty_server"
proof -
  note claim = api_needs_credentials [OF auth_config auth_flags, of "''a''" "''b:c''" "(=)" _ MetricsEP "\<lambda>_. unauthorized" empty_server]
  show ?thesis
    using claim [of "get_request ''/api/metrics''"]
      claim [of "(get_request ''/api/metrics'')\<lparr>rqBasicAuth := Some (''a'', ''b:c'')\<rparr>"]
    by (simp add: get_request_def route_fixed)
qed

section \<open>Reads and client errors\<close>

text \<open>Everything but the clock, the engine's verdicts used up and the access log.\<close>

definition same_state :: "server \<Rightarrow> server \<Rightarrow> bool" where
  "same_state s t \<longleftrightarrow> svChecker t = svChecker s \<and> svEngine t = svEngine s \<and> svBroker t = svBroker s \<and>
     svLatest t = svLatest s \<and> wdb (svWorld t) = wdb (svWorld s)"

definition refused :: "outcome \<Rightarrow> bool" where
  "refused out = (case out of Stream _ \<Rightarrow> False | Reply r \<Rightarrow> 400 \<le> rsCode r \<and> rsCode r < 500)"

lemma same_state_world: "wdb w = wdb (svWorld s) \<Longrightarrow> same_state s (s\<lparr>svWorld := w\<rparr>)"
  by (simp add: same_state_def)

lemma same_state_refl [simp]: "same_state s s"
  by (simp add: same_state_def)

lemma query_same: "query sel scan w = (r, w') \<Longrightarrow> wdb w' = wdb w"
  by (metis query_frame(1) snd_conv)

lemma query_row_same: "query_row sel scan w = (r, w') \<Longrightarrow> wdb w' = wdb w"
  by (metis query_row_frame(1) snd_conv)

lemma time_Now_same: "time_Now w = (t, w') \<Longrightarrow> wdb w' = wdb w"
  by (metis time_Now_frame(1) snd_conv)

lemmas write_defs = writeJSON_def writeError_def method_not_allowed_def refused_def

lemma reading_handlers:
  "HandleAlerts rq s = Some (out, s') \<Longrightarrow> same_state s s'"
  "HandleURLHistory i rq s = Some (out, s') \<Longrightarrow> same_state s s'"
  "HandleMetrics rq s = Some (out, s') \<Longrightarrow> same_state s s'"
  "HandleServices rq s = Some (out, s') \<Longrightarrow> same_state s s'"
  "HandleSecurity rq s = Some (out, s') \<Longrightarrow> same_state s s'"
  "HandleTunnel rq s = Some (out, s') \<Longrightarrow> same_state s s'"
  by (auto simp: HandleAlerts_def HandleURLHistory_def HandleMetrics_def HandleServices_def HandleSecurity_def
      HandleTunnel_def Let_def write_defs ActiveAlerts_def RecentAlerts_def URLResultHistory_def
      intro!: same_state_world dest!: query_same split: if_splits prod.splits option.splits)

lemma acknowledge_refused:
  "HandleAcknowledgeAlert i rq s = Some (out, s') \<Longrightarrow> refused out \<or> is_get (rqMethod rq) \<Longrightarrow> same_state s s'"
  by (auto simp: HandleAcknowledgeAlert_def write_defs is_get_def
      split: if_splits prod.splits option.splits sum.splits)

lemma checks_refused:
  "HandleURLChecks rq s = Some (out, s') \<Longrightarrow> refused out \<or> is_get (rqMethod rq) \<Longrightarrow> same_state s s'"
  by (auto simp: HandleURLChecks_def listURLChecks_def createURLCheck_def write_defs is_get_def
      split: if_splits prod.splits option.splits)

lemma update_refused:
  "updateURLCheck i rq s = Some (out, s') \<Longrightarrow> refused out \<Longrightarrow> same_state s s'"
  by (auto simp: updateURLCheck_def write_defs GetURLCheck_def intro!: same_state_world dest!: query_row_same
      split: prod.splits option.splits sum.splits)

lemma check_refused:
  assumes "HandleURLCheckByID i rq s = Some (out, s')" and "refused out \<or> is_get (rqMethod rq)"
  shows "same_state s s'"
proof (cases "rqMethod rq = ''PUT''")
  case True
  then have "refused out" using assms(2) by (simp add: is_get_def)
  with assms(1) True show ?thesis
    by (auto simp: HandleURLCheckByID_def writeError_def writeJSON_def update_refused split: prod.splits option.splits)
next
  case False
  with assms show ?thesis
    by (auto simp: HandleURLCheckByID_def write_defs is_get_def split: if_splits prod.splits option.splits)
qed

lemma thresholds_refused:
  "HandleThresholds rq s = Some (out, s') \<Longrightarrow> refused out \<or> is_get (rqMethod rq) \<Longrightarrow> same_state s s'"
  by (auto simp: HandleThresholds_def write_defs is_get_def split: if_splits prod.splits option.splits)

lemma handler_refused:
  assumes "handler ep rq s = Some (Reply r, s')" and "refused (Reply r) \<or> is_get (rqMethod rq)"
  shows "same_state s s'"
  using assms by (cases ep)
    (auto intro: reading_handlers acknowledge_refused checks_refused check_refused thresholds_refused
      simp: HandleEvents_def serve_start_def)

lemma logged_same:
  assumes "withLogging h rq s = Some (Reply r, s')" and "\<And>s1 s2. h rq s1 = Some (Reply r, s2) \<Longrightarrow> same_state s1 s2"
  shows "same_state s s'"
proof -
  obtain w s2 where "time_Now (svWorld s) = (fst (time_Now (svWorld s)), w)" "h rq (s\<lparr>svWorld := w\<rparr>) = Some (Reply r, s2)"
    "\<exists>w'. time_Now (svWorld s2) = (fst (time_Now (svWorld s2)), w') \<and>
      s' = s2\<lparr>svWorld := w', svAccessLog := svAccessLog s2 @ [(rqMethod rq, rqPath rq, rsCode r)]\<rparr>"
    using assms(1) by (auto simp: withLogging_def split: prod.splits option.splits outcome.splits)
  with assms(2) show ?thesis by (fastforce simp: same_state_def dest: time_Now_same)
qed



section \<open>Creating a check\<close>

text \<open>An endpoint that returned, for an authorized request: what the handler did, logged.\<close>

lemma serve_reply:
  assumes "route (rqMethod rq) (rqPath rq) = ep" and "ep \<noteq> AssetsEP" and "authorized compare cfg rq"
    and "\<And>w. wdb w = wdb (svWorld s) \<Longrightarrow> verdicts w = verdicts (svWorld s) \<Longrightarrow> clock w = stream_tail (clock (svWorld s)) \<Longrightarrow>
      \<exists>r s1. handler ep rq (s\<lparr>svWorld := w\<rparr>) = Some (Reply r, s1) \<and> P r s1"
    and "\<And>r s1 w l. P r s1 \<Longrightarrow> wdb w = wdb (svWorld s1) \<Longrightarrow> verdicts w = verdicts (svWorld s1) \<Longrightarrow>
      P r (s1\<lparr>svWorld := w, svAccessLog := l\<rparr>)"
  shows "\<exists>r s'. serve assets compare cfg rq s = Some (Reply r, s') \<and> P r s'"
proof -
  obtain t w where t: "time_Now (svWorld s) = (t, w)" by (cases "time_Now (svWorld s)")
  then have "wdb w = wdb (svWorld s)" "verdicts w = verdicts (svWorld s)" "clock w = stream_tail (clock (svWorld s))"
    by (auto simp: time_Now_def)
  with assms(4) obtain r s1 where r: "handler ep rq (s\<lparr>svWorld := w\<rparr>) = Some (Reply r, s1)" "P r s1" by blast
  obtain t' w' where t': "time_Now (svWorld s1) = (t', w')" by (cases "time_Now (svWorld s1)")
  then have "wdb w' = wdb (svWorld s1)" "verdicts w' = verdicts (svWorld s1)" by (metis snd_conv time_Now_frame)+
  with assms(5) r(2) have "P r (s1\<lparr>svWorld := w', svAccessLog := svAccessLog s1 @ [(rqMethod rq, rqPath rq, rsCode r)]\<rparr>)"
    by blast
  moreover have "serve assets compare cfg rq s =
      Some (Reply r, s1\<lparr>svWorld := w', svAccessLog := svAccessLog s1 @ [(rqMethod rq, rqPath rq, rsCode r)]\<rparr>)"
    using serve_api [OF assms(1,2)] assms(3) t r(1) t' by (simp add: withLogging_def)
  ultimately show ?thesis by blast
qed

definition answers :: "int \<Rightarrow> body \<Rightarrow> response \<Rightarrow> bool" where
  "answers code b r \<longleftrightarrow> rsCode r = code \<and> rsBody r = b"

text \<open>The check after the request: its summary, its row, and, when it is enabled, its goroutine, about to probe for the
  first time.\<close>

definition check_created :: "URLCheck \<Rightarrow> server \<Rightarrow> server \<Rightarrow> bool" where
  "check_created u s t \<longleftrightarrow>
     GetSummary (ucID u) (svChecker t) = Some \<lparr>smCheck = u, smLastResult = None, smUptimePct = Fin 0, smHistory = []\<rparr> \<and>
     checks_tbl (wdb (svWorld t)) = checks_tbl (wdb (svWorld s)) @
       [\<lparr>ur_id = ucID u, ur_url = ucURL u, ur_label = ucLabel u, ur_interval_seconds = ucIntervalSeconds u,
         ur_timeout_seconds = ucTimeoutSeconds u, ur_enabled = int_of_bool (ucEnabled u), ur_created_at = Unix (ucCreatedAt u)\<rparr>] \<and>
     (if ucEnabled u
      then \<exists>st. map_of (checks (svChecker t)) (ucID u) = Some st \<and> csCheck st = u \<and>
        (\<exists>k \<in> set (workers (svChecker t)). wkState k = st \<and> wkPhase k = Checking)
      else checks (svChecker t) = checks (svChecker s) \<and> workers (svChecker t) = workers (svChecker s))"

lemma Add_created:
  assumes "healthy w" and "ucURL u \<notin> ur_url ` set (checks_tbl (wdb w))"
  shows "\<exists>c' w'. Add ctx u c w = ((u\<lparr>ucID := checks_seq (wdb w) + 1\<rparr>, None), c', w') \<and> healthy w' \<and>
    (wdb w = wdb (svWorld s) \<longrightarrow> c = svChecker s \<longrightarrow>
       check_created (u\<lparr>ucID := checks_seq (wdb w) + 1\<rparr>) s (s\<lparr>svChecker := c', svWorld := w'\<rparr>))"
proof -
  let ?i = "checks_seq (wdb w) + 1"
  obtain d where d: "sql_insert_check u (wdb w) = Inr (?i, d)" and
    tbl: "checks_tbl d = checks_tbl (wdb w) @ [\<lparr>ur_id = ?i, ur_url = ucURL u, ur_label = ucLabel u,
       ur_interval_seconds = ucIntervalSeconds u, ur_timeout_seconds = ucTimeoutSeconds u,
       ur_enabled = int_of_bool (ucEnabled u), ur_created_at = Unix (ucCreatedAt u)\<rparr>]"
    using assms(2) by (simp add: sql_insert_check_def Let_def)
  let ?w = "w\<lparr>verdicts := stream_tail (verdicts w), wdb := d\<rparr>" and ?u = "u\<lparr>ucID := ?i\<rparr>"
  have "healthy ?w" using assms(1) by (rule healthy_tail) simp
  moreover have "Add ctx u c w = ((?u, None), start_if_enabled ctx ?u (new_summary ?u c), ?w)"
    using exec_healthy [where stmt = "sql_insert_check u", OF assms(1) d]
    by (simp add: Add_def InsertURLCheck_def Let_def)
  moreover have "check_created ?u s (s\<lparr>svChecker := start_if_enabled ctx ?u (new_summary ?u c), svWorld := ?w\<rparr>)"
    if "wdb w = wdb (svWorld s)" "c = svChecker s"
    using that tbl by (auto simp: check_created_def GetSummary_def start_if_enabled_def startCheck_def new_summary_def Let_def)
  ultimately show ?thesis by blast
qed

text \<open>The check a request asks for, field by field.\<close>

definition asked_for :: "create_request \<Rightarrow> URLCheck \<Rightarrow> bool" where
  "asked_for q u \<longleftrightarrow> ucURL u = crURL q \<and> ucLabel u = crLabel q \<and>
     ucIntervalSeconds u = (if 0 < crIntervalSeconds q then crIntervalSeconds q else 60) \<and>
     ucTimeoutSeconds u = (if 0 < crTimeoutSeconds q then crTimeoutSeconds q else 10) \<and>
     (ucEnabled u \<longleftrightarrow> crEnabled q \<noteq> Some False)"

lemma new_check_asked_for: "asked_for q ((new_check q now)\<lparr>ucID := i\<rparr>)"
  by (auto simp: asked_for_def new_check_def split: option.split)

definition reply_created :: "create_request \<Rightarrow> server \<Rightarrow> response \<Rightarrow> server \<Rightarrow> bool" where
  "reply_created q s r t \<longleftrightarrow> healthy (svWorld t) \<and>
     (\<exists>u. ucID u = checks_seq (wdb (svWorld s)) + 1 \<and> asked_for q u \<and> ucCreatedAt u = clock (svWorld s) 1 \<and>
        answers 201 (CheckBody u) r \<and> check_created u s t)"

lemma create_handler:
  assumes "healthy w" and "wdb w = wdb (svWorld s)" and "decode_create (rqBody rq) = Some q" and "crURL q \<noteq> []"
    and "crURL q \<notin> ur_url ` set (checks_tbl (wdb (svWorld s)))" and "rqMethod rq = ''POST''"
    and "clock w = stream_tail (clock (svWorld s))"
  shows "\<exists>r t. handler ChecksEP rq (s\<lparr>svWorld := w\<rparr>) = Some (Reply r, t) \<and> reply_created q s r t"
proof -
  obtain now w1 where n: "time_Now w = (now, w1)" by (cases "time_Now w")
  then have w1: "wdb w1 = wdb (svWorld s)" "healthy w1"
    using assms(1,2) time_Now_same healthy_time_Now by (auto, metis snd_conv)
  have now: "now = clock (svWorld s) 1" using n assms(7) by (auto simp: time_Now_def stream_head_def stream_tail_def)
  let ?u = "(new_check q now)\<lparr>ucID := checks_seq (wdb (svWorld s)) + 1\<rparr>"
  have "ucURL (new_check q now) \<notin> ur_url ` set (checks_tbl (wdb w1))" using assms(5) w1 by (simp add: new_check_def)
  from Add_created [OF w1(2) this, of "rqCtx rq" "svChecker s" s] obtain c w2 where a:
    "Add (rqCtx rq) (new_check q now) (svChecker s) w1 = ((?u, None), c, w2)" "healthy w2"
    "check_created ?u s (s\<lparr>svChecker := c, svWorld := w2\<rparr>)"
    using w1 by auto
  have *: "handler ChecksEP rq (s\<lparr>svWorld := w\<rparr>) =
      Some (Reply \<lparr>rsCode = 201, rsWWWAuthenticate = None, rsBody = CheckBody ?u\<rparr>, s\<lparr>svChecker := c, svWorld := w2\<rparr>)"
    using assms(3-6) n a(1) by (simp add: HandleURLChecks_def createURLCheck_def writeJSON_def)
  have "ucCreatedAt ?u = clock (svWorld s) 1" "ucID ?u = checks_seq (wdb (svWorld s)) + 1"
    by (simp_all add: new_check_def now)
  moreover have "asked_for q ?u" by (rule new_check_asked_for)
  ultimately have "reply_created q s \<lparr>rsCode = 201, rsWWWAuthenticate = None, rsBody = CheckBody ?u\<rparr> (s\<lparr>svChecker := c, svWorld := w2\<rparr>)"
    using a(2,3) unfolding reply_created_def answers_def by (intro conjI exI [of _ ?u]) simp_all
  with * show ?thesis by blast
qed

text \<open>
  C9: creating a check. On a healthy database, an authorized POST with a URL that no check has yet
  is answered 201 with the check: the next id, the URL and the label of the request, its interval and timeout, or 60 and 10
  seconds for one that is missing or not positive, enabled unless the request says not, and the time of the request. That check
  is stored; if it is enabled it has a goroutine, which probes it; and the GET of the address with its id in decimal gives it
  back.
\<close>

theorem created_check_is_served:
  assumes "rqMethod rq = ''POST''" and "rqPath rq = ''/api/url-checks''" and "authorized compare cfg rq"
    and "healthy (svWorld s)" and "decode_create (rqBody rq) = Some q" and "crURL q \<noteq> []"
    and "crURL q \<notin> ur_url ` set (checks_tbl (wdb (svWorld s)))"
    and "i = checks_seq (wdb (svWorld s)) + 1" and "is_int64 i"
  shows "\<exists>r t u. serve assets compare cfg rq s = Some (Reply r, t) \<and> answers 201 (CheckBody u) r \<and>
    ucID u = i \<and> ucURL u = crURL q \<and> ucLabel u = crLabel q \<and>
    ucIntervalSeconds u = (if 0 < crIntervalSeconds q then crIntervalSeconds q else 60) \<and>
    ucTimeoutSeconds u = (if 0 < crTimeoutSeconds q then crTimeoutSeconds q else 10) \<and>
    (ucEnabled u \<longleftrightarrow> crEnabled q \<noteq> Some False) \<and> ucCreatedAt u = clock (svWorld s) 1 \<and> check_created u s t \<and>
    (\<forall>rq'. rqMethod rq' = ''GET'' \<and> rqPath rq' = ''/api/url-checks/'' @ format_int i \<and> authorized compare cfg rq' \<longrightarrow>
       (\<exists>r' t'. serve assets compare cfg rq' t = Some (Reply r', t') \<and>
          answers 200 (SummaryBody \<lparr>smCheck = u, smLastResult = None, smUptimePct = Fin 0, smHistory = []\<rparr>) r'))"
proof -
  have "\<exists>r t. serve assets compare cfg rq s = Some (Reply r, t) \<and> reply_created q s r t"
  proof (rule serve_reply [where ep = ChecksEP])
    fix w :: world assume "wdb w = wdb (svWorld s)" "verdicts w = verdicts (svWorld s)" "clock w = stream_tail (clock (svWorld s))"
    then show "\<exists>r t. handler ChecksEP rq (s\<lparr>svWorld := w\<rparr>) = Some (Reply r, t) \<and> reply_created q s r t"
      using assms healthy_same by (intro create_handler) auto
  next
    fix r t and w :: world and l assume "reply_created q s r t" "wdb w = wdb (svWorld t)" "verdicts w = verdicts (svWorld t)"
    then show "reply_created q s r (t\<lparr>svWorld := w, svAccessLog := l\<rparr>)"
      using healthy_same by (auto simp: reply_created_def check_created_def)
  qed (use assms in \<open>simp_all add: route_fixed\<close>)
  then obtain r t u where r: "serve assets compare cfg rq s = Some (Reply r, t)"
    and u: "ucID u = i" "asked_for q u" "ucCreatedAt u = clock (svWorld s) 1" "answers 201 (CheckBody u) r" "check_created u s t"
    using assms(8) by (auto simp: reply_created_def)
  have "\<exists>r' t'. serve assets compare cfg rq' t = Some (Reply r', t') \<and>
      answers 200 (SummaryBody \<lparr>smCheck = u, smLastResult = None, smUptimePct = Fin 0, smHistory = []\<rparr>) r'"
    if "rqMethod rq' = ''GET''" "rqPath rq' = ''/api/url-checks/'' @ format_int i" "authorized compare cfg rq'" for rq'
  proof (rule serve_reply [where ep = "CheckEP (format_int i)"])
    show "route (rqMethod rq') (rqPath rq') = CheckEP (format_int i)"
      unfolding that by (rule route_check) (auto simp: format_int_def is_digit_def dest!: dec_digits)
    show "\<exists>r' t'. handler (CheckEP (format_int i)) rq' (t\<lparr>svWorld := w :: world\<rparr>) = Some (Reply r', t') \<and>
      answers 200 (SummaryBody \<lparr>smCheck = u, smLastResult = None, smUptimePct = Fin 0, smHistory = []\<rparr>) r'"
      for w :: world using u(1,5) that(1) ParseInt_format_int [OF assms(9)]
      by (simp add: HandleURLCheckByID_def check_created_def writeJSON_def answers_def)
  qed (use that in simp_all)
  then show ?thesis using r u unfolding asked_for_def by blast
qed

definition open_config :: Config where
  "open_config = auth_config\<lparr>cfBasicAuthHash := None\<rparr>"

definition post_request :: request where
  "post_request = (get_request ''/api/url-checks'')\<lparr>rqMethod := ''POST'',
     rqBody := Some (JObject [(''URL'', JString ''u''), (''interval_seconds'', JInt (-5))])\<rparr>"

lemma created_check_is_served_witness:
  "\<exists>r t u. serve (\<lambda>_. unauthorized) (=) open_config post_request empty_server = Some (Reply r, t) \<and>
     answers 201 (CheckBody u) r \<and> ucID u = 1 \<and> ucURL u = ''u'' \<and>
     (\<exists>r' t'. serve (\<lambda>_. unauthorized) (=) open_config (get_request ''/api/url-checks/1'') t = Some (Reply r', t') \<and> rsCode r' = 200)"
proof -
  let ?q = "\<lparr>crURL = ''u'', crLabel = [], crIntervalSeconds = -5, crTimeoutSeconds = 0, crEnabled = None\<rparr>"
  have "fold_name ''URL'' = ''url''" "fold_name ''interval_seconds'' = ''interval_seconds''" by code_simp+
  then have q: "decode_create (rqBody post_request) = Some ?q"
    by (simp add: decode_create_def post_request_def create_member_def is_int64_def del: fold_name.simps)
  have a: "authorized (=) open_config rq" for rq by (simp add: authorized_def AuthEnabled_def open_config_def)
  have one: "format_int 1 = ''1''" by code_simp
  have g: "rqMethod (get_request p) = ''GET''" "rqPath (get_request p) = p" for p by (simp_all add: get_request_def)
  have p: "rqMethod post_request = ''POST''" "rqPath post_request = ''/api/url-checks''"
    by (simp_all add: post_request_def get_request_def)
  have h: "healthy (svWorld empty_server)" by (simp add: empty_server_def)
  have url: "crURL ?q \<noteq> []" "crURL ?q \<notin> ur_url ` set (checks_tbl (wdb (svWorld empty_server)))"
    by (simp_all add: empty_server_def fresh_world_def empty_db_def)
  have i: "1 = checks_seq (wdb (svWorld empty_server)) + 1" "is_int64 1"
    by (simp_all add: empty_server_def fresh_world_def empty_db_def is_int64_def)
  obtain r t u where post: "serve (\<lambda>_. unauthorized) (=) open_config post_request empty_server = Some (Reply r, t)"
    "answers 201 (CheckBody u) r" "ucID u = 1" "ucURL u = ''u''"
    and get: "\<forall>rq'. rqMethod rq' = ''GET'' \<and> rqPath rq' = ''/api/url-checks/'' @ format_int 1 \<and> authorized (=) open_config rq' \<longrightarrow>
       (\<exists>r' t'. serve (\<lambda>_. unauthorized) (=) open_config rq' t = Some (Reply r', t') \<and>
          answers 200 (SummaryBody \<lparr>smCheck = u, smLastResult = None, smUptimePct = Fin 0, smHistory = []\<rparr>) r')"
    using created_check_is_served [OF p a h q url i, of "\<lambda>_. unauthorized"] by auto
  have "\<exists>r' t'. serve (\<lambda>_. unauthorized) (=) open_config (get_request ''/api/url-checks/1'') t = Some (Reply r', t') \<and> rsCode r' = 200"
    using get [rule_format, of "get_request ''/api/url-checks/1''"] a g one by (auto simp: answers_def)
  with post show ?thesis by blast
qed

section \<open>Putting thresholds\<close>

lemma set_threshold_healthy:
  assumes "healthy w" and "v \<noteq> NaN"
  shows "\<exists>w'. UpdateThreshold k v e w = (None, e\<lparr>thresholds := (thresholds e)(k \<mapsto> v)\<rparr>, w') \<and> healthy w' \<and>
    thresholds_tbl (wdb w') = AList.update k v (thresholds_tbl (wdb w))"
proof -
  let ?d = "(wdb w)\<lparr>thresholds_tbl := AList.update k v (thresholds_tbl (wdb w))\<rparr>"
  have d: "sql_set_threshold k v (wdb w) = Inr ((), ?d)" using assms(2) by (simp add: sql_set_threshold_def)
  have "SetThreshold k v w = (Inr (), w\<lparr>verdicts := stream_tail (verdicts w), wdb := ?d\<rparr>)"
    unfolding SetThreshold_def by (rule exec_healthy [where stmt = "sql_set_threshold k v", OF assms(1) d])
  moreover have "healthy (w\<lparr>verdicts := stream_tail (verdicts w), wdb := ?d\<rparr>)"
    using assms(1) by (rule healthy_tail) simp
  ultimately show ?thesis by (simp add: UpdateThreshold_def)
qed

lemma put_thresholds_healthy:
  assumes "healthy w" and "\<forall>(k, v) \<in> set kvs. v \<noteq> NaN"
  shows "\<exists>w'. put_thresholds kvs e w = (None, e\<lparr>thresholds := thresholds e ++ map_of (rev kvs)\<rparr>, w') \<and> healthy w' \<and>
    map_of (thresholds_tbl (wdb w')) = map_of (thresholds_tbl (wdb w)) ++ map_of (rev kvs)"
  using assms
proof (induction kvs arbitrary: e w)
  case (Cons kv kvs)
  obtain k v where kv: "kv = (k, v)" by (cases kv)
  let ?e = "e\<lparr>thresholds := (thresholds e)(k \<mapsto> v)\<rparr>"
  from set_threshold_healthy [OF Cons.prems(1), of v k e] Cons.prems(2) kv obtain w1 where w1:
    "UpdateThreshold k v e w = (None, ?e, w1)" "healthy w1"
    "thresholds_tbl (wdb w1) = AList.update k v (thresholds_tbl (wdb w))" by auto
  have add: "f(k \<mapsto> v) ++ map_of (rev kvs) = f ++ map_of (rev (kv # kvs))" for f :: "string \<rightharpoonup> float64"
    by (simp add: kv map_add_def fun_eq_iff split: option.split)
  have "\<forall>(k, v) \<in> set kvs. v \<noteq> NaN" using Cons.prems(2) by simp
  from Cons.IH [OF w1(2) this, of ?e] obtain w' where
    "put_thresholds kvs ?e w1 = (None, ?e\<lparr>thresholds := thresholds ?e ++ map_of (rev kvs)\<rparr>, w')" "healthy w'"
    "map_of (thresholds_tbl (wdb w')) = map_of (thresholds_tbl (wdb w1)) ++ map_of (rev kvs)" by blast
  note run = this
  have "put_thresholds (kv # kvs) e w = (None, e\<lparr>thresholds := (thresholds e)(k \<mapsto> v) ++ map_of (rev kvs)\<rparr>, w')"
    using run(1) by (simp add: kv w1(1))
  moreover have "map_of (thresholds_tbl (wdb w')) = (map_of (thresholds_tbl (wdb w)))(k \<mapsto> v) ++ map_of (rev kvs)"
    using run(3) by (simp only: w1(3) map_of_update)
  ultimately show ?case using run(2) unfolding add by blast
qed simp

lemma map_of_visit:
  assumes "keys_distinct m"
  shows "map_of (rev (visit rank m)) = map_of m"
proof -
  have "mset (map fst (rev (visit rank m))) = mset (map fst m)" by (simp flip: image_mset.compositionality)
  then have "distinct (map fst (rev (visit rank m)))"
    using assms unfolding keys_distinct_def by (metis mset_eq_imp_distinct_iff)
  then show ?thesis using assms by (simp add: map_of_inject_set keys_distinct_def)
qed

definition thresholds_put :: "(string \<times> float64) list \<Rightarrow> server \<Rightarrow> response \<Rightarrow> server \<Rightarrow> bool" where
  "thresholds_put m s r t \<longleftrightarrow>
     thresholds (svEngine t) = thresholds (svEngine s) ++ map_of m \<and>
     activeAlerts (svEngine t) = activeAlerts (svEngine s) \<and>
     map_of (thresholds_tbl (wdb (svWorld t))) = map_of (thresholds_tbl (wdb (svWorld s))) ++ map_of m \<and>
     answers 200 (ThresholdsBody (thresholds (svEngine s) ++ map_of m)) r"

text \<open>
  C21: putting thresholds. On a healthy database, an authorized PUT of a JSON object of numbers is
  answered 200 with the thresholds now in force: the old ones overridden by those of the
  request, whatever the order in which the map is ranged over; the table agrees, and no alert is
  forgotten.
\<close>

theorem put_thresholds_in_force:
  assumes "rqMethod rq = ''PUT''" and "rqPath rq = ''/api/thresholds''" and "authorized compare cfg rq"
    and "healthy (svWorld s)" and "rqBody rq = Some v" and "dec_float_map v = Some m"
  shows "\<exists>r t. serve assets compare cfg rq s = Some (Reply r, t) \<and> thresholds_put m s r t"
proof (rule serve_reply [where ep = ThresholdsEP])
  fix w :: world assume w: "wdb w = wdb (svWorld s)" "verdicts w = verdicts (svWorld s)"
  let ?kvs = "visit (rqOrder rq) m"
  have "\<forall>(k, x) \<in> set ?kvs. x \<noteq> NaN" using dec_float_map_finite [OF assms(6)] by auto
  moreover have "healthy w" using w(2) assms(4) healthy_same by blast
  ultimately obtain w' where "put_thresholds ?kvs (svEngine s) w =
      (None, (svEngine s)\<lparr>thresholds := thresholds (svEngine s) ++ map_of (rev ?kvs)\<rparr>, w')"
    "map_of (thresholds_tbl (wdb w')) = map_of (thresholds_tbl (wdb w)) ++ map_of (rev ?kvs)"
    using put_thresholds_healthy by blast
  then show "\<exists>r t. handler ThresholdsEP rq (s\<lparr>svWorld := w\<rparr>) = Some (Reply r, t) \<and> thresholds_put m s r t"
    using assms w map_of_visit [OF dec_float_map_distinct [OF assms(6)]]
    by (simp add: HandleThresholds_def writeJSON_def thresholds_put_def answers_def engine_GetThresholds_def)
next
  fix r t and w :: world and l
  assume "thresholds_put m s r t" "wdb w = wdb (svWorld t)"
  then show "thresholds_put m s r (t\<lparr>svWorld := w, svAccessLog := l\<rparr>)" unfolding thresholds_put_def by simp
qed (use assms in \<open>simp_all add: route_fixed\<close>)

definition put_request :: request where
  "put_request = (get_request ''/api/thresholds'')\<lparr>rqMethod := ''PUT'',
     rqBody := Some (JObject [(''cpu_pct'', JInt 50), (''ram_pct'', JNull)])\<rparr>"

lemma put_thresholds_in_force_witness:
  "\<exists>r t. serve (\<lambda>_. unauthorized) (=) open_config put_request empty_server = Some (Reply r, t) \<and>
     thresholds (svEngine t) = [''cpu_pct'' \<mapsto> Fin 50, ''ram_pct'' \<mapsto> Fin 0]"
proof -
  have m: "dec_float_map (JObject [(''cpu_pct'', JInt 50), (''ram_pct'', JNull)]) = Some [(''cpu_pct'', Fin 50), (''ram_pct'', Fin 0)]"
    using float_of_int_exact [of 50] by (simp add: finite_float_def)
  have a: "authorized (=) open_config put_request" by (simp add: authorized_def AuthEnabled_def open_config_def)
  have p: "rqMethod put_request = ''PUT''" "rqPath put_request = ''/api/thresholds''"
    "rqBody put_request = Some (JObject [(''cpu_pct'', JInt 50), (''ram_pct'', JNull)])"
    by (simp_all add: put_request_def get_request_def)
  have h: "healthy (svWorld empty_server)" by (simp add: empty_server_def)
  obtain r t where "serve (\<lambda>_. unauthorized) (=) open_config put_request empty_server = Some (Reply r, t)"
    "thresholds_put [(''cpu_pct'', Fin 50), (''ram_pct'', Fin 0)] empty_server r t"
    using put_thresholds_in_force [OF p(1,2) a h p(3) m] by blast
  then show ?thesis
    by (intro exI [of _ r] exI [of _ t]) (auto simp: thresholds_put_def empty_server_def NewEngine_def)
qed

end
