(* ===== verification/Alerts_Props.thy ===== *)
theory Alerts_Props
  imports Alerts Storage_Props
begin

text \<open>
  The alert engine over its lifetime: evaluations, threshold changes, acknowledgements, purges
  and restarts, and what holds of the map of active alerts and the stored rows.
\<close>

section \<open>The lifetime of the engine\<close>

inductive alert_step :: "Engine \<times> world \<Rightarrow> Engine \<times> world \<Rightarrow> bool" where
  al_evaluate: "Evaluate m e w = (r, e', w') \<Longrightarrow> alert_step (e, w) (e', w')"
| al_restart: "LoadThresholds NewEngine w = (err, e', w') \<Longrightarrow> alert_step (e, w) (e', w')"
| al_reload: "LoadThresholds e w = (err, e', w') \<Longrightarrow> alert_step (e, w) (e', w')"
| al_update: "UpdateThreshold k v e w = (err, e', w') \<Longrightarrow> alert_step (e, w) (e', w')"
| al_acknowledge: "AcknowledgeAlert i w = (r, w') \<Longrightarrow> alert_step (e, w) (e, w')"
| al_purge: "Purge w = (r, w') \<Longrightarrow> alert_step (e, w) (e, w')"
| al_other: "storage_step w w' \<Longrightarrow> alerts_tbl (wdb w') = alerts_tbl (wdb w) \<Longrightarrow>
    alert_step (e, w) (e, w')"

definition alert_init :: "Engine \<times> world \<Rightarrow> bool" where
  "alert_init ew \<longleftrightarrow> fst ew = NewEngine \<and> fresh_db (snd ew)"

text \<open>Two maps of the alerts: what the engine believes, what the tables say.\<close>

definition engine_tracked :: "Engine \<times> world \<Rightarrow> bool" where
  "engine_tracked ew \<longleftrightarrow> db_wf (wdb (snd ew)) \<and> alert_db.tracked (activeAlerts (fst ew)) (snd ew)"

definition engine_synced :: "Engine \<times> world \<Rightarrow> bool" where
  "engine_synced ew \<longleftrightarrow> db_wf (wdb (snd ew)) \<and> alert_db.synced (activeAlerts (fst ew)) (snd ew)"

lemma open_alerts_iff:
  assumes "db_wf (wdb w)"
  shows "open_alerts w i = Some k \<longleftrightarrow>
    (\<exists>r \<in> set (alerts_tbl (wdb w)). ar_id r = i \<and> ar_kind r = k \<and> ar_resolved_at r = None)"
  unfolding open_alerts_def by (rule open_in_Some) (use assms in \<open>auto simp: db_wf_def\<close>)

lemma open_alerts_cong: "alerts_tbl (wdb w') = alerts_tbl (wdb w) \<Longrightarrow> open_alerts w' = open_alerts w"
  by (simp add: open_alerts_def)

lemma open_in_acknowledge:
  "open_in (map (\<lambda>r. if ar_id r = i then r\<lparr>ar_acknowledged := 1\<rparr> else r) rs) = open_in rs"
proof
  fix j
  show "open_in (map (\<lambda>r. if ar_id r = i then r\<lparr>ar_acknowledged := 1\<rparr> else r) rs) j = open_in rs j"
    by (induction rs) (auto simp: open_in_def)
qed

lemma open_in_purge: "open_in (filter (\<lambda>r. \<not> expired_alert now r) rs) = open_in rs"
proof
  fix j
  show "open_in (filter (\<lambda>r. \<not> expired_alert now r) rs) j = open_in rs j"
    by (induction rs) (auto simp: open_in_def expired_alert_def)
qed

lemma open_alerts_acknowledge: "open_alerts (snd (AcknowledgeAlert i w)) = open_alerts w"
proof (cases rule: exec_cases [of "sql_acknowledge_alert i" w])
  case (served r)
  then have "alerts_tbl (wdb (snd (AcknowledgeAlert i w))) =
      map (\<lambda>r. if ar_id r = i then r\<lparr>ar_acknowledged := 1\<rparr> else r) (alerts_tbl (wdb w))"
    by (auto simp: AcknowledgeAlert_def sql_acknowledge_alert_def dest!: sym [of "db.alerts_tbl_update _ _"])
  then show ?thesis by (simp add: open_alerts_def open_in_acknowledge)
qed (simp add: AcknowledgeAlert_def open_alerts_def)

lemma open_alerts_purge: "open_alerts (snd (Purge w)) = open_alerts w"
  using purge_alert_rows [of w] by (auto simp: open_alerts_def open_in_purge)

lemma alert_frames:
  "db_wf (wdb w) \<Longrightarrow> db_wf (wdb (snd (AcknowledgeAlert i w)))"
  "db_wf (wdb w) \<Longrightarrow> db_wf (wdb (snd (Purge w)))"
  "db_wf (wdb w) \<Longrightarrow> db_wf (wdb (snd (SetThreshold k v w)))"
  by (auto intro: storage_step_wf storage_step.intros)

lemma LoadThresholds_cases:
  assumes "LoadThresholds e w = (err, e', w')"
  shows "wdb w' = wdb w \<and> (healthy w \<longrightarrow> healthy w' \<and> err = None) \<and>
    (activeAlerts e' = activeAlerts e \<and> err \<noteq> None \<or>
     (\<exists>rank. err = None \<and> activeAlerts e' =
        foldl (\<lambda>m r. m(ar_kind r \<mapsto> ar_id r)) (activeAlerts e) (sql_active_alerts rank (wdb w))))"
proof -
  obtain t x w1 where g: "GetThresholds w = ((t, x), w1)" by (metis prod.collapse)
  obtain as y w2 where a: "ActiveAlerts w1 = ((as, y), w2)" by (metis prod.collapse)
  have w1: "wdb w1 = wdb w" "healthy w \<Longrightarrow> healthy w1"
    using GetThresholds_frame(1) [of w] GetThresholds_healthy [of w] g by simp_all
  have w2: "wdb w2 = wdb w1" "healthy w1 \<Longrightarrow> healthy w2"
    using a by (metis ActiveAlerts_def query_frame(1) snd_conv, metis ActiveAlerts_def healthy_query a snd_conv)
  have x: "x = None" if "healthy w"
    using that g by (auto simp: GetThresholds_def query_def Let_def split: prod.splits elim!: healthy_head)
  have y: "y = None" if "healthy w1"
    using that a by (auto simp: ActiveAlerts_def query_def Let_def elim!: healthy_head)
  have rows: "\<exists>rank. as = map scan_alert (sql_active_alerts rank (wdb w1))" if "y = None"
    using that a by (auto simp: ActiveAlerts_def query_def Let_def split: verdict.splits option.splits)
  have scan: "foldl (\<lambda>m a. m(alKind a \<mapsto> alID a)) m (map scan_alert rs) = foldl (\<lambda>m r. m(ar_kind r \<mapsto> ar_id r)) m rs"
    for m rs by (induction rs arbitrary: m) (simp_all add: scan_alert_def)
  show ?thesis
  proof (cases x)
    case (Some b)
    then show ?thesis using assms g w1 x by (auto simp: LoadThresholds_def)
  next
    case None
    note x = this
    show ?thesis
    proof (cases y)
      case (Some b)
      then show ?thesis using assms g a x w1 w2 y by (auto simp: LoadThresholds_def Let_def)
    next
      case None
      then obtain rank where "as = map scan_alert (sql_active_alerts rank (wdb w))" using rows w1 by auto
      then have "activeAlerts e' = foldl (\<lambda>m r. m(ar_kind r \<mapsto> ar_id r)) (activeAlerts e) (sql_active_alerts rank (wdb w))"
        using assms g a x None by (auto simp: LoadThresholds_def Let_def scan)
      then show ?thesis using assms g a x None w1 w2 by (auto simp: LoadThresholds_def Let_def)
    qed
  qed
qed

lemma restore_Some:
  "foldl (\<lambda>m r. m(ar_kind r \<mapsto> ar_id r)) m rs k = Some i \<Longrightarrow>
   m k = Some i \<or> (\<exists>r \<in> set rs. ar_kind r = k \<and> ar_id r = i)"
  by (induction rs arbitrary: m) (fastforce split: if_splits)+

lemma restore_dom:
  "dom (foldl (\<lambda>m r. m(ar_kind r \<mapsto> ar_id r)) m rs) = dom m \<union> ar_kind ` set rs"
  by (induction rs arbitrary: m) auto

lemma active_rows: "set (sql_active_alerts rank d) = {r \<in> set (alerts_tbl d). ar_resolved_at r = None}"
  by (auto simp: sql_active_alerts_def)

lemma load_tracked:
  assumes "engine_tracked (e, w)" and "LoadThresholds e w = (err, e', w')"
  shows "engine_tracked (e', w')"
proof -
  have wf: "db_wf (wdb w)" and tr: "alert_db.tracked (activeAlerts e) w" using assms(1) by (simp_all add: engine_tracked_def)
  note L = LoadThresholds_cases [OF assms(2)]
  have eq: "open_alerts w' = open_alerts w" by (rule open_alerts_cong) (use L in simp)
  have "open_alerts w i = Some k" if "activeAlerts e' k = Some i" for k i
  proof -
    from L show ?thesis
    proof (elim conjE disjE exE)
      assume "activeAlerts e' = activeAlerts e"
      then show ?thesis using tr that by (simp add: alert_db.tracked_def)
    next
      fix rank
      assume rows: "activeAlerts e' =
          foldl (\<lambda>m r. m(ar_kind r \<mapsto> ar_id r)) (activeAlerts e) (sql_active_alerts rank (wdb w))"
      from restore_Some [OF that [unfolded rows]] show ?thesis
      proof
        assume "activeAlerts e k = Some i"
        then show ?thesis using tr by (simp add: alert_db.tracked_def)
      next
        assume "\<exists>r \<in> set (sql_active_alerts rank (wdb w)). ar_kind r = k \<and> ar_id r = i"
        then show ?thesis unfolding active_rows open_alerts_iff [OF wf] by blast
      qed
    qed
  qed
  then show ?thesis using L wf eq by (simp add: engine_tracked_def alert_db.tracked_def)
qed

lemma load_synced:
  assumes s: "engine_synced (e0, w)" and sub: "activeAlerts e \<subseteq>\<^sub>m activeAlerts e0"
    and h: "healthy w" and L: "LoadThresholds e w = (err, e', w')"
  shows "engine_synced (e', w') \<and> healthy w' \<and> activeAlerts e' = activeAlerts e0"
proof -
  have wf: "db_wf (wdb w)" and sy: "\<And>k i. activeAlerts e0 k = Some i \<longleftrightarrow> open_alerts w i = Some k"
    using s by (simp_all add: engine_synced_def alert_db.synced_def)
  note C = LoadThresholds_cases [OF L]
  from C h have h': "healthy w'" and "err = None" by simp_all
  with C obtain rank where e': "activeAlerts e' =
      foldl (\<lambda>m r. m(ar_kind r \<mapsto> ar_id r)) (activeAlerts e) (sql_active_alerts rank (wdb w))"
    by auto
  have rows: "activeAlerts e0 (ar_kind r) = Some (ar_id r)" if "r \<in> set (sql_active_alerts rank (wdb w))" for r
    using that sy open_alerts_iff [OF wf] by (auto simp: active_rows)
  have le: "activeAlerts e' \<subseteq>\<^sub>m activeAlerts e0"
  proof -
    have "activeAlerts e0 k = Some i" if "activeAlerts e' k = Some i" for k i
      using restore_Some [OF that [unfolded e']] rows sub by (metis domI map_le_def)
    then show ?thesis by (auto simp: map_le_def)
  qed
  have "dom (activeAlerts e0) \<subseteq> dom (activeAlerts e')"
  proof
    fix k assume "k \<in> dom (activeAlerts e0)"
    then obtain i where "open_alerts w i = Some k" using sy by blast
    then show "k \<in> dom (activeAlerts e')"
      using open_alerts_iff [OF wf, of i k] unfolding e' restore_dom active_rows by auto
  qed
  then have "activeAlerts e0 \<subseteq>\<^sub>m activeAlerts e'"
    using le by (metis map_le_def map_le_implies_dom_le subset_antisym)
  with le have eq: "activeAlerts e' = activeAlerts e0" by (rule map_le_antisym)
  have w': "wdb w' = wdb w" using C by (rule conjunct1)
  then have "open_alerts w' = open_alerts w" by (intro open_alerts_cong) simp
  then have "alert_db.synced (activeAlerts e') w'" unfolding eq alert_db.synced_def using sy by presburger
  then show ?thesis using eq h' wf w' by (simp add: engine_synced_def)
qed

lemma Evaluate_run:
  assumes "Evaluate m e w = ((fired, err), e', w')"
  shows "run_checks InsertAlert ResolveAlert time_Now (alert_checks (printable w) (thresholds e) m)
      (activeAlerts e) w = (fired, err, activeAlerts e', w') \<and> thresholds e' = thresholds e"
  using assms by (auto simp: Evaluate_def split: prod.splits)

lemma evaluate_tracked:
  assumes "engine_tracked (e, w)" and "Evaluate m e w = (r, e', w')"
  shows "engine_tracked (e', w')"
proof -
  obtain fired err where "r = (fired, err)" by (cases r)
  with assms(2) Evaluate_run have "run_checks InsertAlert ResolveAlert time_Now
      (alert_checks (printable w) (thresholds e) m) (activeAlerts e) w = (fired, err, activeAlerts e', w')" by blast
  from alert_db.run_checks_tracked [OF _ _ this] assms(1) show ?thesis by (simp add: engine_tracked_def)
qed

lemma evaluate_synced:
  assumes "engine_synced (e, w)" and "healthy w" and "Evaluate m e w = ((fired, err), e', w')"
  shows "err = None \<and> engine_synced (e', w') \<and> healthy w' \<and>
    dom (activeAlerts e') =
      fold check_effect (alert_checks (printable w) (thresholds e) m) (dom (activeAlerts e)) \<and>
    (distinct (map ckKind (alert_checks (printable w) (thresholds e) m)) \<longrightarrow>
       map alKind fired = map ckKind (filter (\<lambda>c. breaching c \<and> activeAlerts e (ckKind c) = None)
         (alert_checks (printable w) (thresholds e) m)))"
  using alert_db.run_checks_synced [OF _ assms(2) _ conjunct1 [OF Evaluate_run [OF assms(3)]]] assms(1)
  by (simp add: engine_synced_def)

lemma UpdateThreshold_frame:
  assumes "UpdateThreshold k v e w = (err, e', w')"
  shows "activeAlerts e' = activeAlerts e \<and> w' = snd (SetThreshold k v w)"
  using assms by (auto simp: UpdateThreshold_def split: prod.splits sum.splits)

lemma open_alerts_set_threshold: "open_alerts (snd (SetThreshold k v w)) = open_alerts w"
proof (cases rule: exec_cases [of "sql_set_threshold k v" w])
  case (served r)
  then show ?thesis
    by (auto simp: SetThreshold_def sql_set_threshold_def open_alerts_def split: if_splits
        dest!: sym [of "db.thresholds_tbl_update _ _"])
qed (simp add: SetThreshold_def open_alerts_def)

lemma alert_step_tracked: "alert_step s t \<Longrightarrow> engine_tracked s \<Longrightarrow> engine_tracked t"
proof (induction rule: alert_step.induct)
  case (al_restart w err e' w' e)
  then have "engine_tracked (NewEngine, w)"
    by (simp add: engine_tracked_def alert_db.tracked_def NewEngine_def)
  with al_restart load_tracked show ?case by blast
next
  case (al_update k v e w err e' w')
  from UpdateThreshold_frame [OF al_update(1)] al_update(2) show ?case
    by (simp add: engine_tracked_def alert_db.tracked_def alert_frames open_alerts_set_threshold)
next
  case (al_acknowledge i w r w' e)
  then have "w' = snd (AcknowledgeAlert i w)" by simp
  with al_acknowledge show ?case
    by (simp add: engine_tracked_def alert_db.tracked_def alert_frames open_alerts_acknowledge)
next
  case (al_purge w r w' e)
  then have "w' = snd (Purge w)" by simp
  with al_purge show ?case
    by (simp add: engine_tracked_def alert_db.tracked_def alert_frames open_alerts_purge)
next
  case (al_other w w' e)
  then show ?case using open_alerts_cong [OF al_other(2)] storage_step_wf [OF al_other(1)]
    by (simp add: engine_tracked_def alert_db.tracked_def)
qed (auto intro: evaluate_tracked load_tracked)

lemma alert_init_tracked: "alert_init s \<Longrightarrow> engine_tracked s"
  by (simp add: alert_init_def engine_tracked_def alert_db.tracked_def NewEngine_def fresh_db_def)

interpretation alert_sys: invariant_system alert_init alert_step engine_tracked
  by unfold_locales (rule alert_init_tracked, assumption, rule alert_step_tracked)

definition engine_exact :: "Engine \<times> world \<Rightarrow> bool" where
  "engine_exact ew \<longleftrightarrow> healthy (snd ew) \<and> engine_synced ew"

lemma exact_cong:
  assumes "engine_exact (e, w)" and "db_wf (wdb w')" and "healthy w'" and "open_alerts w' = open_alerts w"
    and "activeAlerts e' = activeAlerts e"
  shows "engine_exact (e', w')"
  using assms by (simp add: engine_exact_def engine_synced_def alert_db.synced_def)

lemma alert_step_exact: "alert_step s t \<Longrightarrow> engine_exact s \<Longrightarrow> engine_exact t"
proof (induction rule: alert_step.induct)
  case (al_evaluate m e w r e' w')
  then show ?case using evaluate_synced [of e w m _ _ e' w'] by (cases r) (auto simp: engine_exact_def)
next
  case (al_restart w err e' w' e)
  then show ?case using load_synced [of e w NewEngine err e' w'] by (simp add: engine_exact_def NewEngine_def)
next
  case (al_reload e w err e' w')
  then show ?case using load_synced [of e w e err e' w'] by (simp add: engine_exact_def)
next
  case (al_update k v e w err e' w')
  note f = UpdateThreshold_frame [OF al_update(1)]
  have "healthy w'" using f al_update(2) by (simp add: engine_exact_def SetThreshold_def)
  then show ?case using f al_update(2)
    by (intro exact_cong [OF al_update(2)])
      (auto simp: engine_exact_def engine_synced_def alert_frames open_alerts_set_threshold)
next
  case (al_acknowledge i w r w' e)
  then have w': "w' = snd (AcknowledgeAlert i w)" by simp
  then have "healthy w'" using al_acknowledge(2) by (simp add: engine_exact_def AcknowledgeAlert_def)
  then show ?case using w' al_acknowledge(2)
    by (intro exact_cong [OF al_acknowledge(2)])
      (auto simp: engine_exact_def engine_synced_def alert_frames open_alerts_acknowledge)
next
  case (al_purge w r w' e)
  then have w': "w' = snd (Purge w)" by simp
  then have "healthy w'" using al_purge(2) by (simp add: engine_exact_def Purge_healthy)
  then show ?case using w' al_purge(2)
    by (intro exact_cong [OF al_purge(2)])
      (auto simp: engine_exact_def engine_synced_def alert_frames open_alerts_purge)
next
  case (al_other w w' e)
  then show ?case
    by (intro exact_cong [OF al_other(3)])
      (auto simp: engine_exact_def engine_synced_def storage_step_wf storage_step_healthy open_alerts_def)
qed

lemma alert_init_exact: "alert_init s \<and> healthy (snd s) \<Longrightarrow> engine_exact s"
  by (simp add: alert_init_def engine_exact_def engine_synced_def alert_db.synced_def NewEngine_def
      fresh_db_def open_alerts_def open_in_def empty_db_def db_wf_def)

interpretation alert_exact: invariant_system "\<lambda>ew. alert_init ew \<and> healthy (snd ew)" alert_step engine_exact
  by unfold_locales (rule alert_init_exact, assumption, rule alert_step_exact)

section \<open>What one evaluation does\<close>

lemma kinds_image:
  "{k. (\<exists>c \<in> S. P c \<and> f c = k) \<or> k \<in> A \<and> \<not> (\<exists>c \<in> S. Q c \<and> f c = k)} =
   f ` {c \<in> S. P c} \<union> (A - f ` {c \<in> S. Q c})"
proof -
  have im: "k \<in> f ` {c \<in> S. R c} \<longleftrightarrow> (\<exists>c \<in> S. R c \<and> f c = k)" for R k by auto
  show ?thesis by (rule set_eqI) (simp only: im Un_iff Diff_iff mem_Collect_eq)
qed

lemma fold_check_effect:
  "distinct (map ckKind cs) \<Longrightarrow> fold check_effect cs A =
     {k. (\<exists>c \<in> set cs. breaching c \<and> ckKind c = k) \<or>
         k \<in> A \<and> \<not> (\<exists>c \<in> set cs. enabled c \<and> ckKind c = k)}"
proof (induction cs arbitrary: A)
  case (Cons c cs)
  have other: "ckKind d \<noteq> ckKind c" if "d \<in> set cs" for d using kinds_apart [OF Cons.prems that] .
  have "fold check_effect (c # cs) A = fold check_effect cs (check_effect c A)" by simp
  also have "\<dots> = {k. (\<exists>d \<in> set cs. breaching d \<and> ckKind d = k) \<or>
         k \<in> check_effect c A \<and> \<not> (\<exists>d \<in> set cs. enabled d \<and> ckKind d = k)}"
    by (rule Cons.IH) (use Cons.prems in simp)
  also have "\<dots> = {k. (\<exists>d \<in> set (c # cs). breaching d \<and> ckKind d = k) \<or>
         k \<in> A \<and> \<not> (\<exists>d \<in> set (c # cs). enabled d \<and> ckKind d = k)}"
    using other by (auto simp: check_effect_def breaching_def)
  finally show ?case .
qed simp

lemma check_kinds:
  "map ckKind (alert_checks prt th m) = [''cpu_pct'', ''ram_pct'', ''swap_pct''] @
     map (\<lambda>d. ''disk_pct:'' @ daMountpoint d) (mDisks m) @
     map (\<lambda>u. ''url_down:'' @ format_int (uaID u)) (mURLStats m)"
  by (simp add: alert_checks_def gauge_check_def disk_check_def url_check_def Let_def)

lemma check_kinds_distinct:
  assumes "distinct (map daMountpoint (mDisks m))" and "distinct (map uaID (mURLStats m))"
  shows "distinct (map ckKind (alert_checks prt th m))"
  using assms unfolding check_kinds
  by (auto simp: distinct_map inj_on_def dest: format_int_inj)

text \<open>The checks of a snapshot that breach, and those whose threshold is on, as sets of kinds.\<close>

definition breached_kinds :: "(string \<rightharpoonup> float64) \<Rightarrow> AllMetrics \<Rightarrow> string set" where
  "breached_kinds th m = ckKind ` {c \<in> set (alert_checks (\<lambda>_. True) th m). breaching c}"

definition enabled_kinds :: "(string \<rightharpoonup> float64) \<Rightarrow> AllMetrics \<Rightarrow> string set" where
  "enabled_kinds th m = ckKind ` {c \<in> set (alert_checks (\<lambda>_. True) th m). enabled c}"

lemma kinds_any_printable:
  "ckKind ` {c \<in> set (alert_checks prt th m). breaching c} = breached_kinds th m"
  "ckKind ` {c \<in> set (alert_checks prt th m). enabled c} = enabled_kinds th m"
proof -
  let ?key = "\<lambda>c. (ckKind c, ckValue c, ckThreshold c)"
  have key: "map ?key (alert_checks prt th m) = map ?key (alert_checks (\<lambda>_. True) th m)"
    by (simp add: alert_checks_def url_check_def Let_def)
  have br: "ckKind ` {c \<in> set cs. breaching c} = fst ` {(k, v, t) \<in> set (map ?key cs). \<not> t \<le> 0 \<and> t \<le> v}"
    for cs by (force simp: breaching_def enabled_def image_iff)
  have en: "ckKind ` {c \<in> set cs. enabled c} = fst ` {(k, v, t) \<in> set (map ?key cs). \<not> t \<le> 0}"
    for cs by (force simp: enabled_def image_iff)
  show "ckKind ` {c \<in> set (alert_checks prt th m). breaching c} = breached_kinds th m"
    unfolding breached_kinds_def br key ..
  show "ckKind ` {c \<in> set (alert_checks prt th m). enabled c} = enabled_kinds th m"
    unfolding enabled_kinds_def en key ..
qed

lemma evaluate_effect:
  assumes x: "engine_exact (e, w)" and ev: "Evaluate m e w = ((fired, err), e', w')"
    and d: "distinct (map daMountpoint (mDisks m))" "distinct (map uaID (mURLStats m))"
  shows "err = None" and "engine_exact (e', w')" and "thresholds e' = thresholds e"
    and "dom (activeAlerts e') = breached_kinds (thresholds e) m \<union>
      (dom (activeAlerts e) - enabled_kinds (thresholds e) m)"
    and "set (map alKind fired) = breached_kinds (thresholds e) m - dom (activeAlerts e)"
    and "distinct (map alKind fired)"
proof -
  let ?cs = "alert_checks (printable w) (thresholds e) m"
  note dist = check_kinds_distinct [OF d, of "printable w" "thresholds e"]
  have E: "err = None \<and> engine_synced (e', w') \<and> healthy w' \<and>
      dom (activeAlerts e') = fold check_effect ?cs (dom (activeAlerts e)) \<and>
      map alKind fired = map ckKind (filter (\<lambda>c. breaching c \<and> activeAlerts e (ckKind c) = None) ?cs)"
    using evaluate_synced [OF _ _ ev] x dist by (simp add: engine_exact_def)
  show "err = None" and "engine_exact (e', w')" using E by (simp_all add: engine_exact_def)
  show "thresholds e' = thresholds e" using Evaluate_run [OF ev] by simp
  have "dom (activeAlerts e') = fold check_effect ?cs (dom (activeAlerts e))" using E by (elim conjE)
  then have "dom (activeAlerts e') = ckKind ` {c \<in> set ?cs. breaching c} \<union>
      (dom (activeAlerts e) - ckKind ` {c \<in> set ?cs. enabled c})"
    unfolding fold_check_effect [OF dist] kinds_image .
  then show "dom (activeAlerts e') = breached_kinds (thresholds e) m \<union>
      (dom (activeAlerts e) - enabled_kinds (thresholds e) m)" by (simp add: kinds_any_printable)
  have "set (map alKind fired) = ckKind ` {c \<in> set ?cs. breaching c} - dom (activeAlerts e)"
  proof -
    have "set (map alKind fired) = set (map ckKind (filter (\<lambda>c. breaching c \<and> activeAlerts e (ckKind c) = None) ?cs))"
      using E by (elim conjE) (rule arg_cong [where f = set])
    then show ?thesis by (auto simp del: set_map simp: set_map [of ckKind])
  qed
  then show "set (map alKind fired) = breached_kinds (thresholds e) m - dom (activeAlerts e)"
    by (simp add: kinds_any_printable)
  show "distinct (map alKind fired)" using E dist by (simp add: distinct_map_filter)
qed

section \<open>Properties\<close>

text \<open>An engine and a world to evaluate in: fresh tables with the defaults seeded and loaded.\<close>

definition started :: "time \<Rightarrow> Engine \<times> world" where
  "started t = snd (LoadThresholds NewEngine (snd (migrate (fresh_world t))))"

definition metrics_of :: "rat \<Rightarrow> AllMetrics" where
  "metrics_of cpu = \<lparr>mCPUPercent = Fin cpu, mRAMPercent = Fin 10, mSwapPercent = Fin 0,
     mDisks = [], mURLStats = []\<rparr>"

lemma metrics_of_lists [simp]: "mDisks (metrics_of c) = []" "mURLStats (metrics_of c) = []"
  by (simp_all add: metrics_of_def)

lemma started_simps:
  "started t = (\<lparr>thresholds = map_of (rev (seed_thresholds [])), activeAlerts = Map.empty\<rparr>,
     \<lparr>wdb = empty_db\<lparr>thresholds_tbl := seed_thresholds []\<rparr>, verdicts = (\<lambda>_. Serve (\<lambda>_. 0) None),
      clock = (\<lambda>_. t), printable = (\<lambda>_. True)\<rparr>)"
  by (simp add: started_def migrate_def exec_def fresh_world_def LoadThresholds_def GetThresholds_def
      query_def NewEngine_def ActiveAlerts_def sql_active_alerts_def empty_db_def)

lemma alert_init_fresh: "alert_init (NewEngine, fresh_world t) \<and> healthy (snd (NewEngine, fresh_world t))"
  by (simp add: alert_init_def fresh_db_def fresh_world_def healthy_def)

lemma reach_started: "reach alert_init alert_step (started t)"
  and reach_started_healthy: "reach (\<lambda>ew. alert_init ew \<and> healthy (snd ew)) alert_step (started t)"
proof -
  have m: "alert_step (NewEngine, fresh_world t) (NewEngine, snd (migrate (fresh_world t)))"
  proof (rule al_other)
    have "snd (migrate (fresh_world t)) = snd (storage_Open [] (fresh_world t))"
      by (simp add: storage_Open_def migrate_def exec_def fresh_world_def)
    then show "storage_step (fresh_world t) (snd (migrate (fresh_world t)))" by (metis st_open)
  qed (simp add: migrate_def exec_def fresh_world_def)
  have l: "alert_step (NewEngine, snd (migrate (fresh_world t))) (started t)"
    unfolding started_def by (cases "LoadThresholds NewEngine (snd (migrate (fresh_world t)))")
      (auto intro: al_restart)
  have two: "reach P alert_step (started t)" if "P (NewEngine, fresh_world t)" for P
  proof -
    have "reach P alert_step (NewEngine, fresh_world t)" using that by (rule reach_init)
    then have "reach P alert_step (NewEngine, snd (migrate (fresh_world t)))" using m by (rule reach_step)
    then show ?thesis using l by (rule reach_step)
  qed
  show "reach alert_init alert_step (started t)"
    by (rule two) (rule conjunct1 [OF alert_init_fresh])
  show "reach (\<lambda>ew. alert_init ew \<and> healthy (snd ew)) alert_step (started t)"
    by (rule two) (rule alert_init_fresh)
qed

text \<open>
  C13: through any sequence of evaluations, threshold changes, acknowledgements, purges, other
  storage calls and restarts, whatever the engine of the database refuses, every alert that
  the engine holds active is an unresolved row of the same kind.
\<close>

theorem active_alerts_are_open_rows:
  assumes "reach alert_init alert_step (e, w)" and "activeAlerts e k = Some i"
  shows "\<exists>r \<in> set (alerts_tbl (wdb w)). ar_id r = i \<and> ar_kind r = k \<and> ar_resolved_at r = None"
proof -
  have t: "engine_tracked (e, w)" by (rule alert_sys.inv_reach [OF assms(1)])
  then have "open_alerts w i = Some k" using assms(2) by (simp add: engine_tracked_def alert_db.tracked_def)
  moreover have "db_wf (wdb w)" using t by (simp add: engine_tracked_def)
  ultimately show ?thesis by (simp add: open_alerts_iff)
qed

lemma reach_hot:
  "reach alert_init alert_step (snd (Evaluate (metrics_of 95) (fst (started 0)) (snd (started 0))))"
  "reach (\<lambda>ew. alert_init ew \<and> healthy (snd ew)) alert_step
     (snd (Evaluate (metrics_of 95) (fst (started 0)) (snd (started 0))))"
proof -
  have "alert_step (started 0) (snd (Evaluate (metrics_of 95) (fst (started 0)) (snd (started 0))))"
    by (cases "started 0"; cases "Evaluate (metrics_of 95) (fst (started 0)) (snd (started 0))")
      (auto intro: al_evaluate)
  from reach_step [OF reach_started this] reach_step [OF reach_started_healthy this]
  show "reach alert_init alert_step (snd (Evaluate (metrics_of 95) (fst (started 0)) (snd (started 0))))"
    "reach (\<lambda>ew. alert_init ew \<and> healthy (snd ew)) alert_step
       (snd (Evaluate (metrics_of 95) (fst (started 0)) (snd (started 0))))" by blast+
qed

lemma hot_active:
  "activeAlerts (fst (snd (Evaluate (metrics_of 95) (fst (started 0)) (snd (started 0))))) =
     [''cpu_pct'' \<mapsto> 1]"
  by (simp add: started_simps Evaluate_def alert_checks_def metrics_of_def gauge_check_def threshold_at_def
      seed_thresholds_def default_thresholds_def insert_or_ignore_def run_checks.simps time_Now_def InsertAlert_def
      exec_def sql_insert_alert_def alert_of_def empty_db_def)

lemma active_alerts_are_open_rows_witness:
  "\<exists>r \<in> set (alerts_tbl (wdb (snd (snd (Evaluate (metrics_of 95) (fst (started 0)) (snd (started 0))))))).
     ar_id r = 1 \<and> ar_kind r = ''cpu_pct'' \<and> ar_resolved_at r = None"
  by (rule active_alerts_are_open_rows
      [of "fst (snd (Evaluate (metrics_of 95) (fst (started 0)) (snd (started 0))))"])
    (simp_all only: prod.collapse reach_hot hot_active, simp)

text \<open>
  C1: while the database serves every call, the engine's map is exact: a kind is active with
  an id when and only when the row of that id is unresolved and of that kind, and no two
  unresolved rows share a kind. This survives evaluations, reloads and restarts in any order.
\<close>

theorem active_alerts_exact:
  assumes "reach (\<lambda>ew. alert_init ew \<and> healthy (snd ew)) alert_step (e, w)"
  shows "(activeAlerts e k = Some i \<longleftrightarrow>
      (\<exists>r \<in> set (alerts_tbl (wdb w)). ar_id r = i \<and> ar_kind r = k \<and> ar_resolved_at r = None)) \<and>
    (\<forall>r r'. r \<in> set (alerts_tbl (wdb w)) \<and> r' \<in> set (alerts_tbl (wdb w)) \<and>
       ar_resolved_at r = None \<and> ar_resolved_at r' = None \<and> ar_kind r = ar_kind r' \<longrightarrow> r = r')"
proof -
  have x: "engine_exact (e, w)" by (rule alert_exact.inv_reach [OF assms])
  then have wf: "db_wf (wdb w)" and sy: "\<And>k i. activeAlerts e k = Some i \<longleftrightarrow> open_alerts w i = Some k"
    by (simp_all add: engine_exact_def engine_synced_def alert_db.synced_def)
  have "r = r'" if "r \<in> set (alerts_tbl (wdb w))" "r' \<in> set (alerts_tbl (wdb w))"
    "ar_resolved_at r = None" "ar_resolved_at r' = None" "ar_kind r = ar_kind r'" for r r'
  proof -
    have "activeAlerts e (ar_kind r) = Some (ar_id r)" and "activeAlerts e (ar_kind r) = Some (ar_id r')"
      unfolding sy open_alerts_iff [OF wf] using that by auto
    then have "ar_id r = ar_id r'" by simp
    moreover have "inj_on ar_id (set (alerts_tbl (wdb w)))"
      using wf by (simp add: db_wf_def ids_ok_def distinct_map)
    ultimately show ?thesis using that by (simp add: inj_on_def)
  qed
  then show ?thesis using sy open_alerts_iff [OF wf] by blast
qed

text \<open>The engine and the world after one evaluation at 95 per cent of CPU.\<close>

definition hot :: "Engine \<times> world" where
  "hot = snd (Evaluate (metrics_of 95) (fst (started 0)) (snd (started 0)))"

lemma reach_hot_exact: "reach (\<lambda>ew. alert_init ew \<and> healthy (snd ew)) alert_step (fst hot, snd hot)"
  using reach_hot(2) by (simp add: hot_def)

lemma hot_exact: "engine_exact (fst hot, snd hot)"
  by (rule alert_exact.inv_reach [OF reach_hot_exact])

lemma hot_map: "activeAlerts (fst hot) = [''cpu_pct'' \<mapsto> 1]"
  by (simp add: hot_def hot_active)

lemma active_alerts_exact_witness:
  "\<exists>r \<in> set (alerts_tbl (wdb (snd hot))). ar_id r = 1 \<and> ar_kind r = ''cpu_pct'' \<and> ar_resolved_at r = None"
  using active_alerts_exact [OF reach_hot_exact, of "''cpu_pct''" 1] hot_map by simp

text \<open>
  C4: one evaluation against its specification. Mountpoints and check ids being distinct and
  the database serving, it returns no error, leaves active exactly the breached kinds and the
  ones whose check is absent or switched off, and reports exactly the breached kinds that were
  not active before, each once.
\<close>

theorem evaluate_refines_thresholds:
  assumes "reach (\<lambda>ew. alert_init ew \<and> healthy (snd ew)) alert_step (e, w)"
    and "Evaluate m e w = ((fired, err), e', w')"
    and "distinct (map daMountpoint (mDisks m))" and "distinct (map uaID (mURLStats m))"
  shows "err = None \<and>
    dom (activeAlerts e') = breached_kinds (thresholds e) m \<union>
      (dom (activeAlerts e) - enabled_kinds (thresholds e) m) \<and>
    set (map alKind fired) = breached_kinds (thresholds e) m - dom (activeAlerts e) \<and>
    distinct (map alKind fired)"
  using evaluate_effect [OF alert_exact.inv_reach [OF assms(1)] assms(2-4)] by simp

lemma hot_threshold: "thresholds (fst hot) ''cpu_pct'' = Some (Fin 90)"
  by (simp add: hot_def started_simps Evaluate_def seed_thresholds_def default_thresholds_def
      insert_or_ignore_def split: prod.split)

lemma cold_not_breached: "''cpu_pct'' \<notin> breached_kinds (thresholds (fst hot)) (metrics_of 5)"
  and cold_enabled: "''cpu_pct'' \<in> enabled_kinds (thresholds (fst hot)) (metrics_of 5)"
  and hot_breached: "''cpu_pct'' \<in> breached_kinds (thresholds (fst hot)) (metrics_of 95)"
  by (simp_all add: breached_kinds_def enabled_kinds_def alert_checks_def metrics_of_def gauge_check_def
      breaching_def enabled_def threshold_at_def hot_threshold image_iff ex_disj_distrib conj_disj_distribR)

lemma evaluate_refines_thresholds_witness:
  "''cpu_pct'' \<notin> dom (activeAlerts (fst (snd (Evaluate (metrics_of 5) (fst hot) (snd hot)))))"
proof -
  obtain fired err e' w' where ev: "Evaluate (metrics_of 5) (fst hot) (snd hot) = ((fired, err), e', w')"
    by (metis prod.collapse)
  from evaluate_refines_thresholds [OF reach_hot_exact ev] show ?thesis
    using cold_not_breached cold_enabled by (simp add: ev)
qed

text \<open>
  An alert is reported once. Evaluating the same metrics a second time reports nothing
  and leaves the same kinds active.
\<close>

theorem evaluate_twice_fires_once:
  assumes "reach (\<lambda>ew. alert_init ew \<and> healthy (snd ew)) alert_step (e, w)"
    and "distinct (map daMountpoint (mDisks m))" and "distinct (map uaID (mURLStats m))"
    and "Evaluate m e w = ((fired, err), e', w')" and "Evaluate m e' w' = ((fired', err'), e'', w'')"
  shows "fired' = [] \<and> err' = None \<and> dom (activeAlerts e'') = dom (activeAlerts e')"
proof -
  note one = evaluate_effect [OF alert_exact.inv_reach [OF assms(1)] assms(4,2,3)]
  note two = evaluate_effect [OF one(2) assms(5,2,3)]
  have "set (map alKind fired') = {}" unfolding two(5) one(3,4) by blast
  moreover have "breached_kinds (thresholds e) m \<subseteq> enabled_kinds (thresholds e) m"
    by (auto simp: breached_kinds_def enabled_kinds_def breaching_def)
  ultimately show ?thesis using two(1,4) one(3,4) by auto
qed

lemma evaluate_twice_fires_once_witness:
  "fst (fst (Evaluate (metrics_of 95) (fst (snd (Evaluate (metrics_of 95) (fst (started 0)) (snd (started 0)))))
     (snd (snd (Evaluate (metrics_of 95) (fst (started 0)) (snd (started 0))))))) = []"
proof -
  obtain fired err e' w' where one: "Evaluate (metrics_of 95) (fst (started 0)) (snd (started 0)) = ((fired, err), e', w')"
    by (metis prod.collapse)
  obtain fired' err' e'' w'' where two: "Evaluate (metrics_of 95) e' w' = ((fired', err'), e'', w'')"
    by (metis prod.collapse)
  show ?thesis
    using evaluate_twice_fires_once [OF _ _ _ one two] reach_started_healthy [of 0]
    by (simp add: one two)
qed

text \<open>
  C14: a restart loses no alert and raises none again. A new engine that loads its state from
  the tables of a running one holds the same active alerts, so that a kind active before the
  restart is not among those the next evaluation reports.
\<close>

theorem restart_keeps_alerts:
  assumes "reach (\<lambda>ew. alert_init ew \<and> healthy (snd ew)) alert_step (e, w)"
    and "LoadThresholds NewEngine w = (err, e', w')"
    and "distinct (map daMountpoint (mDisks m))" and "distinct (map uaID (mURLStats m))"
  shows "err = None \<and> activeAlerts e' = activeAlerts e \<and>
    set (map alKind (fst (fst (Evaluate m e' w')))) \<inter> dom (activeAlerts e) = {}"
proof -
  have x: "engine_exact (e, w)" by (rule alert_exact.inv_reach [OF assms(1)])
  then have l: "engine_synced (e', w') \<and> healthy w' \<and> activeAlerts e' = activeAlerts e"
    by (intro load_synced [OF _ _ _ assms(2)]) (simp_all add: engine_exact_def NewEngine_def)
  obtain fired err1 e1 w1 where ev: "Evaluate m e' w' = ((fired, err1), e1, w1)" by (metis prod.collapse)
  have "engine_exact (e', w')" using l by (simp add: engine_exact_def)
  then have "set (map alKind fired) = breached_kinds (thresholds e') m - dom (activeAlerts e')"
    by (rule evaluate_effect(5) [OF _ ev assms(3,4)])
  moreover have "err = None" using LoadThresholds_cases [OF assms(2)] x by (simp add: engine_exact_def)
  ultimately show ?thesis using l ev by auto
qed

lemma restart_keeps_alerts_witness:
  "activeAlerts (fst (snd (LoadThresholds NewEngine (snd hot)))) = [''cpu_pct'' \<mapsto> 1]"
proof -
  obtain err e' w' where l: "LoadThresholds NewEngine (snd hot) = (err, e', w')" by (metis prod.collapse)
  from restart_keeps_alerts [OF reach_hot_exact l, where m = "metrics_of 95"] hot_map show ?thesis
    by (simp add: l)
qed

text \<open>
  C25: an alert is resolved only by a check of its kind with a positive threshold. Whatever the
  database answers, a disk that is no longer mounted, a URL check that was removed and a gauge
  whose threshold was set to 0 keep the entry of the map they have, through the whole
  evaluation: such an alert stays active for ever.
\<close>

theorem unchecked_alerts_stay:
  assumes "Evaluate m e w = (r, e', w')"
  shows "(p \<notin> daMountpoint ` set (mDisks m) \<longrightarrow>
      activeAlerts e' (''disk_pct:'' @ p) = activeAlerts e (''disk_pct:'' @ p)) \<and>
    (i \<notin> uaID ` set (mURLStats m) \<longrightarrow>
      activeAlerts e' (''url_down:'' @ format_int i) = activeAlerts e (''url_down:'' @ format_int i)) \<and>
    (threshold_at (thresholds e) k \<le> 0 \<and> k \<in> {''cpu_pct'', ''ram_pct'', ''swap_pct''} \<longrightarrow>
      activeAlerts e' k = activeAlerts e k)"
proof -
  obtain fired err where "r = (fired, err)" by (cases r)
  with assms Evaluate_run have run: "run_checks InsertAlert ResolveAlert time_Now
      (alert_checks (printable w) (thresholds e) m) (activeAlerts e) w = (fired, err, activeAlerts e', w')"
    by blast
  note keep = alert_db.run_checks_unchecked [OF run]
  have "''disk_pct:'' @ p \<notin> ckKind ` set (filter enabled (alert_checks (printable w) (thresholds e) m))"
    if "p \<notin> daMountpoint ` set (mDisks m)"
    using that by (auto simp: alert_checks_def gauge_check_def disk_check_def url_check_def Let_def)
  moreover have "''url_down:'' @ format_int i \<notin> ckKind ` set (filter enabled (alert_checks (printable w) (thresholds e) m))"
    if "i \<notin> uaID ` set (mURLStats m)"
    using that by (auto simp: alert_checks_def gauge_check_def disk_check_def url_check_def Let_def
        dest!: format_int_inj)
  moreover have "k \<notin> ckKind ` set (filter enabled (alert_checks (printable w) (thresholds e) m))"
    if "threshold_at (thresholds e) k \<le> 0" "k \<in> {''cpu_pct'', ''ram_pct'', ''swap_pct''}"
    using that by (auto simp: alert_checks_def gauge_check_def disk_check_def url_check_def Let_def enabled_def)
  ultimately show ?thesis using keep by blast
qed

lemma unchecked_alerts_stay_witness:
  "activeAlerts (fst (snd (Evaluate (metrics_of 1)
      \<lparr>thresholds = Map.empty, activeAlerts = [''url_down:7'' \<mapsto> 4, ''cpu_pct'' \<mapsto> 5]\<rparr> (fresh_world 0)))) ''url_down:7'' = Some 4"
proof -
  obtain r e' w' where ev: "Evaluate (metrics_of 1)
      \<lparr>thresholds = Map.empty, activeAlerts = [''url_down:7'' \<mapsto> 4, ''cpu_pct'' \<mapsto> 5]\<rparr> (fresh_world 0) = (r, e', w')"
    by (metis prod.collapse)
  have "format_int 7 = ''7''" by code_simp
  then show ?thesis using unchecked_alerts_stay [OF ev, where i = 7] by (simp add: ev)
qed

text \<open>The world of \<open>hot\<close> in which the database refuses the next statement only.\<close>

definition refusing_resolve :: world where
  "refusing_resolve = (snd hot)\<lparr>verdicts := (\<lambda>_. Serve (\<lambda>_. 0) None)(0 := Refuse ''disk I/O error'')\<rparr>"

lemma hot_eq:
  "hot = (\<lparr>thresholds = map_of (rev (seed_thresholds [])), activeAlerts = [''cpu_pct'' \<mapsto> 1]\<rparr>,
     \<lparr>wdb = empty_db\<lparr>thresholds_tbl := seed_thresholds [], alerts_seq := 1,
        alerts_tbl := [\<lparr>ar_id = 1, ar_kind = ''cpu_pct'', ar_message = usage_msg ''CPU usage'' (Fin 95) (Fin 90),
          ar_value = Fin 95, ar_threshold = Fin 90, ar_fired_at = Unix 0, ar_resolved_at = None,
          ar_acknowledged = 0\<rparr>]\<rparr>,
      verdicts = (\<lambda>_. Serve (\<lambda>_. 0) None), clock = (\<lambda>_. 0), printable = (\<lambda>_. True)\<rparr>)"
  by (simp add: hot_def started_simps Evaluate_def alert_checks_def metrics_of_def gauge_check_def threshold_at_def
      seed_thresholds_def default_thresholds_def insert_or_ignore_def run_checks.simps time_Now_def InsertAlert_def
      exec_def sql_insert_alert_def alert_of_def empty_db_def)

lemma cold_run:
  "Evaluate (metrics_of 5) (fst hot) refusing_resolve =
     (([], None), (fst hot)\<lparr>activeAlerts := Map.empty\<rparr>, snd hot)"
  by (simp add: refusing_resolve_def hot_eq Evaluate_def alert_checks_def metrics_of_def gauge_check_def
      threshold_at_def seed_thresholds_def default_thresholds_def insert_or_ignore_def run_checks.simps
      time_Now_def ResolveAlert_def exec_def stream_head_def stream_tail_def)

text \<open>
  The answer of ResolveAlert is thrown away. When the database refuses the one statement
  that resolves an alert, the engine forgets the alert while its row stays unresolved, and the
  next breach inserts a second unresolved row of the same kind.
\<close>

theorem refused_resolve_duplicates_alert:
  "(let (r1, e1, w1) = Evaluate (metrics_of 5) (fst hot) refusing_resolve;
        (r2, e2, w2) = Evaluate (metrics_of 95) e1 w1
    in snd r1 = None \<and> activeAlerts e1 = Map.empty \<and>
       map (\<lambda>r. (ar_id r, ar_kind r, ar_resolved_at r)) (alerts_tbl (wdb w2)) =
         [(1, ''cpu_pct'', None), (2, ''cpu_pct'', None)])"
  unfolding cold_run by (simp add: hot_eq Evaluate_def seed_thresholds_def default_thresholds_def insert_or_ignore_def alert_checks_def metrics_of_def gauge_check_def
      threshold_at_def run_checks.simps time_Now_def InsertAlert_def exec_def sql_insert_alert_def alert_of_def)

text \<open>
  The threshold url_latency_ms is stored, listed and editable, and nothing reads it: an
  evaluation does the same to the alerts and to the database whatever its value.
\<close>

theorem latency_threshold_unused:
  "Evaluate m (e\<lparr>thresholds := (thresholds e)(''url_latency_ms'' \<mapsto> v)\<rparr>) w =
    (case Evaluate m e w of (r, e', w') \<Rightarrow>
       (r, e'\<lparr>thresholds := (thresholds e)(''url_latency_ms'' \<mapsto> v)\<rparr>, w'))"
proof -
  have "alert_checks (printable w) ((thresholds e)(''url_latency_ms'' \<mapsto> v)) m =
      alert_checks (printable w) (thresholds e) m"
    by (simp add: alert_checks_def gauge_check_def disk_check_def threshold_at_def cong: map_cong)
  then show ?thesis by (simp add: Evaluate_def split: prod.split)
qed

end
