(* ===== verification/Urlcheck_Sys.thy ===== *)
theory Urlcheck_Sys
  imports Urlcheck Storage_Props
begin

text \<open>
  The checker as a concurrent system: goroutines of checks, HTTP handlers inside \<open>Add\<close>,
  \<open>Update\<close> and \<open>Remove\<close>, and the relay that drains the result channel. A step is one
  database call, one section under the mutex or one channel operation, so that handlers and
  goroutines interleave at exactly the points where the code lets them.
\<close>

section \<open>Calls in flight\<close>

datatype call =
  AddInsert nat URLCheck
| AddSummary nat URLCheck
| StartCheck nat URLCheck
| UpdateRow nat URLCheck
| UpdateStop nat URLCheck
| UpdateSummary nat URLCheck
| RemoveStop nat int
| RemoveSummary nat int
| RemoveRow nat int
| Returned nat

definition start_or_return :: "nat \<Rightarrow> URLCheck \<Rightarrow> call" where
  "start_or_return ctx ch = (if ucEnabled ch then StartCheck ctx ch else Returned ctx)"

fun call_step :: "call \<Rightarrow> Checker \<Rightarrow> world \<Rightarrow> (call \<times> Checker \<times> world) option" where
  "call_step (AddInsert ctx ch) c w =
     (case InsertURLCheck ch w of
        (Inl e, w1) \<Rightarrow> Some (Returned ctx, c, w1)
      | (Inr i, w1) \<Rightarrow> Some (AddSummary ctx (ch\<lparr>ucID := i\<rparr>), c, w1))"
| "call_step (AddSummary ctx ch) c w = Some (start_or_return ctx ch, new_summary ch c, w)"
| "call_step (StartCheck ctx ch) c w = Some (Returned ctx, startCheck ctx ch c, w)"
| "call_step (UpdateRow ctx ch) c w =
     (case UpdateURLCheck ch w of
        (Inl e, w1) \<Rightarrow> Some (Returned ctx, c, w1)
      | (Inr _, w1) \<Rightarrow> Some (UpdateStop ctx ch, c, w1))"
| "call_step (UpdateStop ctx ch) c w =
     map_option (\<lambda>c'. (UpdateSummary ctx ch, c', w)) (stopCheck (ucID ch) c)"
| "call_step (UpdateSummary ctx ch) c w = Some (start_or_return ctx ch, update_summary ch c, w)"
| "call_step (RemoveStop ctx i) c w = map_option (\<lambda>c'. (RemoveSummary ctx i, c', w)) (stopCheck i c)"
| "call_step (RemoveSummary ctx i) c w = Some (RemoveRow ctx i, delete_summary i c, w)"
| "call_step (RemoveRow ctx i) c w = Some (Returned ctx, c, snd (DeleteURLCheck i w))"
| "call_step (Returned ctx) c w = Some (Returned ctx, c, w)"

fun call_run :: "nat \<Rightarrow> call \<Rightarrow> Checker \<Rightarrow> world \<Rightarrow> (call \<times> Checker \<times> world) option" where
  "call_run 0 k c w = Some (k, c, w)"
| "call_run (Suc n) k c w =
     (case call_step k c w of None \<Rightarrow> None | Some (k', c', w') \<Rightarrow> call_run n k' c' w')"

text \<open>Run without interruption, the steps of a call are the operation.\<close>

lemma Add_steps:
  "call_run 3 (AddInsert ctx ch) c w = (case Add ctx ch c w of (r, c', w') \<Rightarrow> Some (Returned ctx, c', w'))"
  by (auto simp: Add_def eval_nat_numeral start_if_enabled_def start_or_return_def Let_def split: prod.split sum.split)

lemma Update_steps:
  "call_run 4 (UpdateRow ctx ch) c w =
     map_option (\<lambda>(r, c', w'). (Returned ctx, c', w')) (Update ctx ch c w)"
  by (auto simp: Update_def eval_nat_numeral start_if_enabled_def start_or_return_def split: prod.split sum.split option.split)

lemma Remove_steps:
  "call_run 3 (RemoveStop ctx i) c w =
     map_option (\<lambda>(r, c', w'). (Returned ctx, c', w')) (Remove i c w)"
  by (auto simp: Remove_def eval_nat_numeral split: prod.split sum.split option.split)

section \<open>Goroutines\<close>

text \<open>
  One step of a goroutine: a stage of \<open>doAndStore\<close>, or a branch of \<open>select\<close> that is ready. The
  ticker may fire whenever the goroutine waits.
\<close>

inductive worker_step :: "nat set \<Rightarrow> worker \<times> Checker \<times> world \<Rightarrow> phase option \<times> Checker \<times> world \<Rightarrow> bool"
  for cancelled :: "nat set" where
  wk_check: "wkPhase k = Checking \<Longrightarrow>
    named_check net (wkCtx k \<in> cancelled) (csCheck (wkState k)) w = (r, w') \<Longrightarrow>
    worker_step cancelled (k, c, w) (Some (Storing r), c, w')"
| wk_store: "wkPhase k = Storing r \<Longrightarrow>
    worker_step cancelled (k, c, w) (Some (Measuring r), c, store_result r w)"
| wk_measure: "wkPhase k = Measuring r \<Longrightarrow> measure_uptime (csCheck (wkState k)) w = (p, w') \<Longrightarrow>
    worker_step cancelled (k, c, w) (Some (Recording r p), c, w')"
| wk_record: "wkPhase k = Recording r p \<Longrightarrow>
    worker_step cancelled (k, c, w) (Some (Sending r), record_result (ucID (csCheck (wkState k))) r p c, w)"
| wk_send: "wkPhase k = Sending r \<Longrightarrow>
    worker_step cancelled (k, c, w) (Some Waiting, send_result r c, w)"
| wk_tick: "wkPhase k = Waiting \<Longrightarrow> worker_step cancelled (k, c, w) (Some Checking, c, w)"
| wk_stop: "wkPhase k = Waiting \<Longrightarrow> csStop (wkState k) \<in> set (closed c) \<Longrightarrow>
    worker_step cancelled (k, c, w) (None, c, w)"
| wk_ctx: "wkPhase k = Waiting \<Longrightarrow> wkCtx k \<in> cancelled \<Longrightarrow>
    worker_step cancelled (k, c, w) (None, c, w)"

inductive_cases worker_stepE: "worker_step cancelled (k, c, w) (p, c', w')"

definition set_worker :: "nat \<Rightarrow> phase option \<Rightarrow> Checker \<Rightarrow> Checker" where
  "set_worker n p c =
     (case p of
        None \<Rightarrow> c\<lparr>workers := take n (workers c) @ drop (Suc n) (workers c)\<rparr>
      | Some q \<Rightarrow> c\<lparr>workers := (workers c)[n := (workers c ! n)\<lparr>wkPhase := q\<rparr>]\<rparr>)"

section \<open>The system\<close>

record checker_system =
  skChecker :: Checker
  skWorld :: world
  skCalls :: "call list"
  skContexts :: nat
  skCancelled :: "nat set"

text \<open>
  Context 0 is the server's, cancelled at shutdown; each request brings a context of its own,
  cancelled once its handler has returned.
\<close>

inductive ck_step :: "checker_system \<Rightarrow> checker_system \<Rightarrow> bool" where
  ck_start: "Start 0 (skChecker s) (skWorld s) = (r, c, w) \<Longrightarrow> skCalls s = [] \<Longrightarrow> workers (skChecker s) = [] \<Longrightarrow>
    ck_step s (s\<lparr>skChecker := c, skWorld := w\<rparr>)"
| ck_worker: "n < length (workers (skChecker s)) \<Longrightarrow>
    worker_step (skCancelled s) (workers (skChecker s) ! n, skChecker s, skWorld s) (p, c, w) \<Longrightarrow>
    ck_step s (s\<lparr>skChecker := set_worker n p c, skWorld := w\<rparr>)"
| ck_request: "k \<in> {AddInsert (skContexts s) ch, UpdateRow (skContexts s) ch, RemoveStop (skContexts s) i} \<Longrightarrow>
    ck_step s (s\<lparr>skCalls := skCalls s @ [k], skContexts := skContexts s + 1\<rparr>)"
| ck_call: "n < length (skCalls s) \<Longrightarrow>
    call_step (skCalls s ! n) (skChecker s) (skWorld s) = Some (k, c, w) \<Longrightarrow>
    ck_step s (s\<lparr>skCalls := (skCalls s)[n := k], skChecker := c, skWorld := w\<rparr>)"
| ck_respond: "n < length (skCalls s) \<Longrightarrow> skCalls s ! n = Returned ctx \<Longrightarrow>
    ck_step s (s\<lparr>skCalls := take n (skCalls s) @ drop (Suc n) (skCalls s),
                 skCancelled := insert ctx (skCancelled s)\<rparr>)"
| ck_receive: "ResultCh (skChecker s) = r # rs \<Longrightarrow>
    ck_step s (s\<lparr>skChecker := (skChecker s)\<lparr>ResultCh := rs\<rparr>\<rparr>)"
| ck_shutdown: "ck_step s (s\<lparr>skCancelled := insert 0 (skCancelled s)\<rparr>)"
| ck_storage: "storage_step (skWorld s) w \<Longrightarrow> ck_step s (s\<lparr>skWorld := w\<rparr>)"

definition ck_init :: "checker_system \<Rightarrow> bool" where
  "ck_init s \<longleftrightarrow> skChecker s = NewChecker \<and> skCalls s = [] \<and> skContexts s = 1 \<and> skCancelled s = {} \<and>
     fresh_db (skWorld s)"

section \<open>The invariant of every interleaving\<close>

definition phase_result :: "phase \<Rightarrow> Result option" where
  "phase_result p = (case p of Storing r \<Rightarrow> Some r | Measuring r \<Rightarrow> Some r | Recording r u \<Rightarrow> Some r
     | Sending r \<Rightarrow> Some r | Checking \<Rightarrow> None | Waiting \<Rightarrow> None)"

definition summary_ok :: "int \<Rightarrow> Summary \<Rightarrow> bool" where
  "summary_ok i s \<longleftrightarrow> ucID (smCheck s) = i \<and> length (smHistory s) \<le> 20 \<and>
     (\<forall>r \<in> set (smHistory s). rsCheckID r = i) \<and>
     smLastResult s = (case smHistory s of [] \<Rightarrow> None | r # rs \<Rightarrow> Some r)"

definition worker_ok :: "worker \<Rightarrow> bool" where
  "worker_ok k \<longleftrightarrow> (\<forall>r. phase_result (wkPhase k) = Some r \<longrightarrow> rsCheckID r = ucID (csCheck (wkState k)))"

text \<open>The registered checks have open stop channels of their own.\<close>

definition registry_ok :: "(int \<rightharpoonup> checkState) \<Rightarrow> nat set \<Rightarrow> nat \<Rightarrow> bool" where
  "registry_ok m cl n \<longleftrightarrow>
     (\<forall>i st. m i = Some st \<longrightarrow> ucID (csCheck st) = i \<and> csStop st < n \<and> csStop st \<notin> cl) \<and>
     (\<forall>i j st st'. m i = Some st \<and> m j = Some st' \<and> csStop st = csStop st' \<longrightarrow> i = j) \<and>
     (\<forall>x \<in> cl. x < n)"

lemma registry_start:
  assumes "registry_ok m cl n"
  shows "registry_ok (m(ucID ch \<mapsto> \<lparr>csCheck = ch, csStop = n\<rparr>)) cl (n + 1)"
proof -
  have old: "ucID (csCheck st) = i \<and> csStop st < n \<and> csStop st \<notin> cl" if "m i = Some st" for i st
    using assms that unfolding registry_ok_def by blast
  have inj: "i = j" if "m i = Some st" "m j = Some st'" "csStop st = csStop st'" for i j st st'
    using assms that unfolding registry_ok_def by blast
  have cl: "x < n" if "x \<in> cl" for x using assms that unfolding registry_ok_def by blast
  have "n \<notin> cl" using cl by blast
  then show ?thesis unfolding registry_ok_def
    using old cl inj by (intro conjI allI impI ballI) (auto split: if_splits dest!: old cl)
qed

lemma registry_stop:
  assumes "registry_ok m cl n" and "m i = Some st"
  shows "registry_ok (m(i := None)) (insert (csStop st) cl) n"
proof -
  have old: "ucID (csCheck st) = j \<and> csStop st < n \<and> csStop st \<notin> cl" if "m j = Some st" for j st
    using assms(1) that unfolding registry_ok_def by blast
  have inj: "j = k" if "m j = Some st" "m k = Some st'" "csStop st = csStop st'" for j k st st'
    using assms(1) that unfolding registry_ok_def by blast
  have cl: "x < n" if "x \<in> cl" for x using assms(1) that unfolding registry_ok_def by blast
  show ?thesis unfolding registry_ok_def
    using old [OF assms(2)] cl inj inj [OF _ assms(2)] old
    by (intro conjI allI impI ballI) (auto split: if_splits)
qed

definition checker_ok :: "Checker \<Rightarrow> bool" where
  "checker_ok c \<longleftrightarrow>
     keys_distinct (checks c) \<and> keys_distinct (summaries c) \<and>
     registry_ok (map_of (checks c)) (set (closed c)) (made c) \<and>
     (\<forall>i s. map_of (summaries c) i = Some s \<longrightarrow> summary_ok i s) \<and>
     (\<forall>k \<in> set (workers c). worker_ok k \<and> csStop (wkState k) < made c) \<and>
     distinct (map (\<lambda>k. csStop (wkState k)) (workers c)) \<and>
     length (ResultCh c) \<le> 64"

lemma NewChecker_ok: "checker_ok NewChecker"
  by (simp add: checker_ok_def NewChecker_def registry_ok_def)

lemma startCheck_simps:
  "workers (startCheck ctx ch c) = workers c @
     [\<lparr>wkCtx = ctx, wkState = \<lparr>csCheck = ch, csStop = made c\<rparr>, wkPhase = Checking\<rparr>]"
  "checks (startCheck ctx ch c) = AList.update (ucID ch) \<lparr>csCheck = ch, csStop = made c\<rparr> (checks c)"
  "made (startCheck ctx ch c) = made c + 1" "closed (startCheck ctx ch c) = closed c"
  "ResultCh (startCheck ctx ch c) = ResultCh c"
  "summaries (startCheck ctx ch c) = (if map_of (summaries c) (ucID ch) = None
     then AList.update (ucID ch) \<lparr>smCheck = ch, smLastResult = None, smUptimePct = Fin 0, smHistory = []\<rparr> (summaries c)
     else summaries c)"
  by (simp_all add: startCheck_def Let_def)

lemma startCheck_ok:
  assumes "checker_ok c"
  shows "checker_ok (startCheck ctx ch c)"
proof -
  have "summary_ok (ucID ch) \<lparr>smCheck = ch, smLastResult = None, smUptimePct = Fin 0, smHistory = []\<rparr>"
    by (simp add: summary_ok_def)
  moreover have "\<forall>k \<in> set (workers (startCheck ctx ch c)). worker_ok k \<and> csStop (wkState k) < made c + 1"
    using assms by (auto simp: checker_ok_def startCheck_simps worker_ok_def phase_result_def)
  moreover have "distinct (map (\<lambda>k. csStop (wkState k)) (workers (startCheck ctx ch c)))"
    using assms by (auto simp: checker_ok_def startCheck_simps)
  ultimately show ?thesis
    using assms registry_start [of "map_of (checks c)" "set (closed c)" "made c" ch]
    by (simp add: checker_ok_def startCheck_simps)
qed

lemma new_summary_ok: "checker_ok c \<Longrightarrow> checker_ok (new_summary ch c)"
  by (auto simp: checker_ok_def new_summary_def summary_ok_def)

lemma update_summary_ok: "checker_ok c \<Longrightarrow> checker_ok (update_summary ch c)"
  by (auto simp: checker_ok_def update_summary_def summary_ok_def split: option.split)

lemma delete_summary_ok: "checker_ok c \<Longrightarrow> checker_ok (delete_summary i c)"
  by (auto simp: checker_ok_def delete_summary_def)

lemma start_if_enabled_ok: "checker_ok c \<Longrightarrow> checker_ok (start_if_enabled ctx ch c)"
  by (simp add: start_if_enabled_def startCheck_ok)

lemma record_summary_ok: "summary_ok i s \<Longrightarrow> rsCheckID r = i \<Longrightarrow> summary_ok i (record_summary r u s)"
  by (auto simp: summary_ok_def record_summary_def dest: in_set_takeD)

lemma record_result_ok: "checker_ok c \<Longrightarrow> rsCheckID r = i \<Longrightarrow> checker_ok (record_result i r u c)"
  by (auto simp: checker_ok_def record_result_def record_summary_ok split: option.split)

lemma send_result_ok: "checker_ok c \<Longrightarrow> checker_ok (send_result r c)"
  by (auto simp: checker_ok_def send_result_def)

text \<open>The stop channel of a registered check is open, so that closing it never panics.\<close>

lemma stopCheck_ok:
  assumes "checker_ok c"
  shows "\<exists>c'. stopCheck i c = Some c' \<and> checker_ok c'"
proof (cases "map_of (checks c) i")
  case None
  with assms show ?thesis by (simp add: stopCheck_def)
next
  case (Some st)
  have reg: "registry_ok (map_of (checks c)) (set (closed c)) (made c)" using assms by (simp add: checker_ok_def)
  then have "csStop st \<notin> set (closed c)" using Some by (auto simp: registry_ok_def)
  moreover have "checker_ok (c\<lparr>closed := csStop st # closed c, checks := AList.delete i (checks c)\<rparr>)"
    using assms registry_stop [OF reg Some] by (simp add: checker_ok_def)
  ultimately show ?thesis using Some by (simp add: stopCheck_def)
qed

lemma call_step_ok:
  assumes "checker_ok c"
  shows "\<exists>k' c' w'. call_step k c w = Some (k', c', w') \<and> checker_ok c'"
proof (cases k)
  case (UpdateStop ctx ch)
  then show ?thesis using stopCheck_ok [OF assms, of "ucID ch"] by auto
next
  case (RemoveStop ctx i)
  then show ?thesis using stopCheck_ok [OF assms, of i] by auto
qed (use assms in \<open>auto simp: startCheck_ok new_summary_ok update_summary_ok delete_summary_ok
    split: prod.split sum.split\<close>)

lemma named_check_id: "named_check net d ch w = (r, w') \<Longrightarrow> rsCheckID r = ucID ch"
  by (auto simp: named_check_def doCheck_def failed_result_def split: prod.splits option.splits sum.splits)

lemma set_worker_ok:
  assumes "checker_ok c" and "n < length (workers c)"
    and "\<And>q. p = Some q \<Longrightarrow> worker_ok ((workers c ! n)\<lparr>wkPhase := q\<rparr>)"
  shows "checker_ok (set_worker n p c)"
proof (cases p)
  case None
  have "set (take n (workers c) @ drop (Suc n) (workers c)) \<subseteq> set (workers c)"
    by (auto dest: in_set_takeD in_set_dropD)
  moreover have "distinct (map f (take n (workers c) @ drop (Suc n) (workers c)))"
    if "distinct (map f (workers c))" for f :: "worker \<Rightarrow> nat"
  proof -
    have "map f (workers c) = map f (take n (workers c)) @ f (workers c ! n) # map f (drop (Suc n) (workers c))"
      using id_take_nth_drop [OF assms(2)] by (metis list.simps(9) map_append)
    with that show ?thesis by simp
  qed
  ultimately show ?thesis using assms(1) None unfolding checker_ok_def set_worker_def by (simp) blast
next
  case (Some q)
  have "map (\<lambda>k. csStop (wkState k)) ((workers c)[n := (workers c ! n)\<lparr>wkPhase := q\<rparr>]) =
      map (\<lambda>k. csStop (wkState k)) (workers c)"
    using assms(2) by (simp add: map_update list_update_same_conv)
  moreover have "csStop (wkState (workers c ! n)) < made c"
    using assms(1,2) by (simp add: checker_ok_def)
  ultimately show ?thesis using assms(1) assms(3) [OF Some] Some
    unfolding checker_ok_def set_worker_def by (auto dest!: set_update_subset_insert [THEN subsetD])
qed

lemma worker_step_frame:
  assumes "worker_step cancelled (k, c, w) (p, c', w')" and "checker_ok c" and "worker_ok k"
  shows "checker_ok c' \<and> workers c' = workers c \<and> (\<forall>q. p = Some q \<longrightarrow> worker_ok (k\<lparr>wkPhase := q\<rparr>))"
  using assms by (auto elim!: worker_stepE simp: worker_ok_def phase_result_def named_check_id
      record_result_ok send_result_ok) (auto simp: record_result_def send_result_def split: option.splits)

lemma worker_step_ok:
  assumes "worker_step cancelled (workers c ! n, c, w) (p, c', w')" and "checker_ok c" and "n < length (workers c)"
  shows "checker_ok (set_worker n p c')"
proof -
  have "worker_ok (workers c ! n)" using assms(2,3) by (simp add: checker_ok_def)
  from worker_step_frame [OF assms(1,2) this] assms(3) show ?thesis by (intro set_worker_ok) auto
qed

lemma fold_start_ok: "checker_ok c \<Longrightarrow> checker_ok (fold (start_if_enabled ctx) chs c)"
  by (induction chs arbitrary: c) (simp_all add: start_if_enabled_ok)

lemma ck_step_ok: "ck_step s t \<Longrightarrow> checker_ok (skChecker s) \<Longrightarrow> checker_ok (skChecker t)"
proof (induction rule: ck_step.induct)
  case (ck_start s r c w)
  then show ?case by (auto simp: Start_def fold_start_ok split: prod.splits option.splits)
next
  case (ck_worker n s p c w)
  then show ?case by (auto intro: worker_step_ok)
next
  case (ck_call n s k c w)
  with call_step_ok [OF ck_call(3), of "skCalls s ! n" "skWorld s"] show ?case by auto
qed (auto simp: checker_ok_def)

definition ck_inv :: "checker_system \<Rightarrow> bool" where
  "ck_inv s \<longleftrightarrow> checker_ok (skChecker s)"

interpretation ck_sys: invariant_system ck_init ck_step ck_inv
  by unfold_locales (auto simp: ck_init_def ck_inv_def NewChecker_ok ck_step_ok)

end
