(* ===== verification/Metrics_Props.thy ===== *)
theory Metrics_Props
  imports Metrics
begin

text \<open>
  What the metrics report: byte rates are the difference of the counters over the elapsed time, to
  within hardly more than a byte per second, and the network snapshot counts every connection and shows the
  first hundred with their addresses in decimal.
\<close>

section \<open>Rates\<close>

lemma float_of_rat_ge:
  assumes "0 \<le> n" and "of_int n \<le> x" and "x \<le> of_int m" and "m \<le> 2 ^ 52"
  shows "Fin (of_int n) \<le> float_of_rat x"
proof (cases "x = 0")
  case True
  with assms(1,2) show ?thesis by (simp add: float_of_rat_def)
next
  case False
  moreover have "0 \<le> x" using assms(1,2) by (meson of_int_0_le_iff order_trans)
  ultimately have x: "0 < x" by simp
  define e where "e = max (binade x - 52) (-1074)"
  define u :: rat where "u = 2 powi e"
  define k :: int where "k = 2 ^ nat (- e)"
  have e: "e \<le> 0" using binade_le_52 [OF x assms(3,4)] by (simp add: e_def)
  have u: "0 < u" by (simp add: u_def)
  have ku: "1 / u = of_int k" using powi_nonpos_inverse [OF e] by (simp add: u_def k_def)
  then have nk: "of_int n / u = of_int (n * k)" by (metis mult.right_neutral of_int_mult times_divide_eq_right)
  let ?r = "of_int (round_half_even (x / u)) * u"
  have "of_int (n * k) \<le> x / u" using assms(2) u nk by (metis divide_right_mono less_imp_le)
  then have "n * k \<le> round_half_even (x / u)" by (rule round_half_even_ge)
  then have "of_int (n * k) * u \<le> ?r" using u by (metis mult_right_mono less_imp_le of_int_le_iff)
  moreover have "of_int (n * k) * u = of_int n" using nk u by (metis divide_eq_eq less_irrefl)
  ultimately have "of_int n \<le> ?r" by (simp only:)
  moreover have "round_pos x = (if 2 powi 1024 \<le> ?r then PosInf else Fin ?r)"
    by (simp add: round_pos_def e_def u_def Let_def)
  ultimately show ?thesis using x by (simp add: float_of_rat_def)
qed

text \<open>A quotient of small numbers, rounded, lies between its floor and its ceiling.\<close>

lemma float_of_rat_between:
  assumes "0 \<le> x" and "x \<le> of_int m" and "m \<le> 2 ^ 52"
  obtains y where "float_of_rat x = Fin y" and "of_int \<lfloor>x\<rfloor> \<le> y" and "y \<le> of_int \<lceil>x\<rceil>"
proof -
  have "\<lceil>x\<rceil> \<le> m" using assms(2) by (simp add: ceiling_le_iff)
  then have c: "\<lceil>x\<rceil> \<le> 2 ^ 52" using assms(3) by linarith
  have up: "float_of_rat x \<le> Fin (of_int \<lceil>x\<rceil>)" "Fin 0 \<le> float_of_rat x"
    using float_of_rat_bounded [OF assms(1) le_of_int_ceiling c] by simp_all
  then obtain y where y: "float_of_rat x = Fin y" by (cases "float_of_rat x") auto
  have "0 \<le> \<lfloor>x\<rfloor>" using assms(1) by simp
  from float_of_rat_ge [OF this of_int_floor_le assms(2,3)] y have "of_int \<lfloor>x\<rfloor> \<le> y" by simp
  with y up that show ?thesis by simp
qed

lemma per_second_between:
  assumes "uint prev \<le> uint cur" and "uint cur - uint prev \<le> 2 ^ 52" and "1 \<le> e"
  shows "\<lfloor>of_int (uint cur - uint prev) / e\<rfloor> \<le> uint (per_second other cur prev (Fin e))"
    and "uint (per_second other cur prev (Fin e)) \<le> \<lceil>of_int (uint cur - uint prev) / e\<rceil>"
proof -
  let ?d = "uint cur - uint prev" and ?x = "of_int (uint cur - uint prev) / e :: rat"
  have d: "uint (cur - prev) = ?d" using assms(1) by (simp only: uint_sub_if_size if_True)
  have d0: "(0::rat) \<le> of_int ?d" using assms(1) by (simp only: of_int_0_le_iff diff_ge_0_iff_ge)
  then have x: "0 \<le> ?x" using assms(3) by (intro divide_nonneg_nonneg) linarith+
  have "?x \<le> of_int ?d / 1" using assms(3) d0 by (intro divide_left_mono) linarith+
  then have le: "?x \<le> of_int ?d" by simp
  obtain y where y: "float_of_rat ?x = Fin y" "of_int \<lfloor>?x\<rfloor> \<le> y" "y \<le> of_int \<lceil>?x\<rceil>"
    by (rule float_of_rat_between [OF x le assms(2)])
  have q: "per_second other cur prev (Fin e) = float_uint64 other (Fin y)"
    using assms float_of_int_exact [of ?d] y by (simp add: per_second_def d)
  have f0: "0 \<le> \<lfloor>?x\<rfloor>" using x by simp
  then have y0: "0 \<le> y" using y(2) by (meson of_int_0_le_iff order_trans)
  have c: "\<lceil>?x\<rceil> \<le> ?d" using le by (simp add: ceiling_le_iff)
  have "of_int \<lceil>?x\<rceil> \<le> (of_int (2 ^ 52) :: rat)" using c assms(2) by linarith
  then have y1: "y \<le> of_int (2 ^ 52)" using y(3) by linarith
  have fl: "\<lfloor>?x\<rfloor> \<le> \<lfloor>y\<rfloor>" using y(2) by (simp add: le_floor_iff)
  have "y < of_int (\<lceil>?x\<rceil> + 1)" using y(3) by simp
  then have fc: "\<lfloor>y\<rfloor> \<le> \<lceil>?x\<rceil>" by (simp add: floor_less_iff flip: zle_add1_eq_le)
  have "y < 2 ^ 64" using y1 by simp
  then have "float_uint64 other (Fin y) = word_of_int \<lfloor>y\<rfloor>"
    using y0 by (simp add: float_uint64_def float_trunc_def)
  moreover have "0 \<le> \<lfloor>y\<rfloor>" and "\<lfloor>y\<rfloor> < 2 ^ 64"
    using y0 \<open>y < 2 ^ 64\<close> by (simp_all add: floor_less_iff)
  then have "uint (word_of_int \<lfloor>y\<rfloor> :: 64 word) = \<lfloor>y\<rfloor>" by (simp add: uint_word_of_int)
  ultimately have u: "uint (per_second other cur prev (Fin e)) = \<lfloor>y\<rfloor>" using q by simp
  show "\<lfloor>?x\<rfloor> \<le> uint (per_second other cur prev (Fin e))" using u fl by simp
  show "uint (per_second other cur prev (Fin e)) \<le> \<lceil>?x\<rceil>" using u fc by simp
qed

lemma read_cpu_memory_network: "syNetworkIO (read_cpu_memory rd s) = syNetworkIO s"
  unfolding read_cpu_memory_def Let_def
  by (cases "rdCPU rd"; cases "rdPerCore rd"; cases "rdLoad rd"; cases "rdMemory rd"; cases "rdSwap rd")
    (simp_all split: list.split)

lemma net_rates_disk: "net_rates other (c\<lparr>prevDiskIO := x\<rparr>) now io = net_rates other c now io"
  by (induction io) (auto split: option.split)

lemma Collect_network:
  "syNetworkIO (fst (metrics_Collect other rank rd now c)) =
     (case rdNetIO rd of None \<Rightarrow> [] | Some io \<Rightarrow> net_rates other c now io)"
proof -
  define s1 where "s1 = read_cpu_memory rd (empty_snapshot now)"
  have s1: "syNetworkIO s1 = []" by (simp add: s1_def read_cpu_memory_network empty_snapshot_def)
  show ?thesis
    unfolding metrics_Collect_def s1_def [symmetric] Let_def using s1
    by (cases "rdPartitions rd"; cases "rdDiskIO rd"; cases "rdNetIO rd"; cases "rdUptime rd")
      (simp_all add: net_rates_disk)
qed

lemma net_rates_names:
  "prevTime c = Some t \<Longrightarrow> map niInterface (net_rates other c now io) =
     map ncName (filter (\<lambda>n. ncName n \<noteq> ''lo'' \<and> prevNetIO c (ncName n) \<noteq> None) io)"
  by (induction io) (auto split: option.split)

lemma net_rates_entry:
  assumes "st \<in> set (net_rates other c now io)" and "prevTime c = Some t"
  shows "\<exists>n p. n \<in> set io \<and> prevNetIO c (ncName n) = Some p \<and> niInterface st = ncName n \<and>
    niBytesSentSec st = per_second other (ncBytesSent n) (ncBytesSent p) (elapsed_seconds now t) \<and>
    niBytesRecvSec st = per_second other (ncBytesRecv n) (ncBytesRecv p) (elapsed_seconds now t)"
  using assms by (induction io) (auto split: option.splits if_splits)

text \<open>The seconds between two readings of the clock, as a float, against the exact quotient.\<close>

lemma duration_seconds_exact:
  assumes "Second \<le> d" and "d \<le> 2 ^ 51 * Second"
  obtains e where "duration_seconds d = Fin e" and "1 \<le> e" and "\<bar>e - of_int d / 10 ^ 9\<bar> \<le> of_int d / 10 ^ 9 * 2 powi (-51)"
proof -
  define s where "s = d div Second"
  define n where "n = d mod Second"
  define T :: rat where "T = of_int d / 10 ^ 9"
  define q :: rat where "q = of_int n / 10 ^ 9"
  have pos: "0 < Second" "0 \<le> d" using assms(1) by (simp_all add: Second_def)
  have d: "d = s * Second + n" by (simp add: s_def n_def)
  have s: "1 \<le> s" "s \<le> 2 ^ 51" using assms by (simp_all add: s_def Second_def pos_imp_zdiv_nonneg_iff)
  have n: "0 \<le> n" "n < 10 ^ 9" by (simp_all add: n_def Second_def)
  have T: "T = of_int s + q" by (simp add: T_def q_def d Second_def add_divide_distrib)
  have q: "0 \<le> q" "q < 1" using n by (simp_all add: q_def)
  have sd: "d sdiv Second = s" "d smod Second = n"
    using pos by (simp_all add: s_def n_def signed_divide_int_def signed_modulo_int_def sgn_if Second_def)
  have fs: "float_of_int s = Fin (of_int s)" "float_of_int n = Fin (of_int n)" using s n by (simp_all add: float_of_int_exact)
  obtain f where f: "float_of_rat q = Fin f" "\<bar>f - q\<bar> \<le> q * 2 powi (-53)"
  proof (cases "n = 0")
    case True
    then show ?thesis using that [of 0] by (simp add: q_def float_of_rat_def)
  next
    case False
    then have "1 / 10 ^ 9 \<le> q" using n by (simp add: q_def divide_right_mono)
    moreover have "2 powi (-1022) \<le> (1 / 10 ^ 9 :: rat)" by (simp add: power_int_def power_one_over)
    ultimately have "2 powi (-1022) \<le> q" by (rule order_trans [rotated])
    from float_of_rat_error [OF this, of 1] q that show ?thesis by auto
  qed
  have tiny: "(2::rat) powi (-53) \<le> 1" "0 < (2::rat) powi (-53)" by (simp_all add: power_int_def power_one_over)
  have qt: "q * 2 powi (-53) \<le> q" using q tiny by (simp add: mult_left_le)
  then have fq: "\<bar>f - q\<bar> \<le> q" using f(2) by (rule order_trans [rotated])
  have f0: "0 \<le> f" "f \<le> 2" using fq q by linarith+
  define z where "z = of_int s + f"
  have z: "1 \<le> z" "z \<le> of_int (2 ^ 52)" using s f0 by (simp_all add: z_def)
  have "2 powi (-1022) \<le> (1 :: rat)" by (simp add: power_int_def power_one_over)
  with z(1) have "2 powi (-1022) \<le> z" by (rule order_trans [rotated])
  from float_of_rat_error [OF this z(2)] obtain e where e: "float_of_rat z = Fin e" "\<bar>e - z\<bar> \<le> z * 2 powi (-53)" by auto
  have "Fin (of_int 1) \<le> float_of_rat z" using z by (intro float_of_rat_ge [of _ _ "2 ^ 52"]) simp_all
  then have e1: "1 \<le> e" using e(1) by simp
  have dur: "duration_seconds d = Fin e" using e(1) f(1) fs by (simp add: duration_seconds_def sd q_def z_def)
  have "z \<le> 2 * T" "q \<le> T" using fq q s T unfolding z_def by linarith+
  then have "z * 2 powi (-53) \<le> 2 * T * 2 powi (-53)" "q * 2 powi (-53) \<le> T * 2 powi (-53)"
    using tiny(2) by (simp_all add: mult_right_mono)
  moreover have "\<bar>e - T\<bar> \<le> \<bar>e - z\<bar> + \<bar>f - q\<bar>" by (simp add: T z_def)
  ultimately have "\<bar>e - T\<bar> \<le> 3 * (T * 2 powi (-53))" using e(2) f(2) by linarith
  also have "\<dots> \<le> T * 2 powi (-51)" using T q s by (simp add: power_int_def power_one_over)
  finally show ?thesis using that dur e1 by (simp add: T_def)
qed

text \<open>The counters of an interface grew, by at most \<open>2 ^ 45\<close> bytes.\<close>

definition grew :: "64 word \<Rightarrow> 64 word \<Rightarrow> bool" where
  "grew prev cur \<longleftrightarrow> uint prev \<le> uint cur \<and> uint cur - uint prev \<le> 2 ^ 45"

text \<open>The rate is off by hardly more than a byte from the bytes counted in \<open>d\<close> nanoseconds, times \<open>10 ^ 9\<close>, divided by \<open>d\<close>.\<close>

definition near_rate :: "64 word \<Rightarrow> 64 word \<Rightarrow> int \<Rightarrow> 64 word \<Rightarrow> bool" where
  "near_rate prev cur d rate \<longleftrightarrow>
     \<bar>of_int (uint rate) - of_int (uint cur - uint prev) * 10 ^ 9 / of_int d\<bar> < (1 + 1 / 64 :: rat)"

lemma per_second_near:
  assumes "grew prev cur" and "Second \<le> now - t" and "is_int64 (now - t)"
  shows "near_rate prev cur (now - t) (per_second other cur prev (elapsed_seconds now t))"
proof -
  define T :: rat where "T = of_int (now - t) / 10 ^ 9"
  define B :: rat where "B = of_int (uint cur - uint prev)"
  obtain e where e: "duration_seconds (now - t) = Fin e" "1 \<le> e" "\<bar>e - T\<bar> \<le> T * 2 powi (-51)"
    unfolding T_def by (rule duration_seconds_exact [OF assms(2)]) (use assms(3) in \<open>simp add: is_int64_def Second_def\<close>)
  then have el: "elapsed_seconds now t = Fin e" by (simp add: elapsed_seconds_def)
  let ?rate = "of_int (uint (per_second other cur prev (Fin e))) :: rat"
  have g: "uint prev \<le> uint cur" "uint cur - uint prev \<le> 2 ^ 52" using assms(1) by (auto simp: grew_def)
  have B: "0 \<le> B" using g(1) unfolding B_def by (simp only: of_int_0_le_iff diff_ge_0_iff_ge)
  have "B \<le> of_int (2 ^ 45)" using assms(1) unfolding B_def grew_def by (simp only: of_int_le_iff)
  then have B45: "B \<le> 2 ^ 45" by simp
  have "of_int \<lfloor>B / e\<rfloor> \<le> ?rate" "?rate \<le> of_int \<lceil>B / e\<rceil>"
    using per_second_between [OF g e(2), of other] unfolding B_def by (simp_all only: of_int_le_iff)
  then have r: "\<bar>?rate - B / e\<bar> < 1" by linarith
  have T: "0 < T" using assms(2) by (simp add: T_def Second_def)
  have "B / e - B / T = B * (T - e) / (e * T)" using e(2) T by (simp add: field_simps)
  then have "\<bar>B / e - B / T\<bar> = B * \<bar>e - T\<bar> / (e * T)"
    using e(2) T B by (simp add: abs_mult abs_divide abs_minus_commute)
  also have "\<dots> \<le> B * (T * 2 powi (-51)) / (e * T)"
    using e T B by (intro divide_right_mono mult_left_mono) simp_all
  also have "\<dots> = B * 2 powi (-51) / e" using T by simp
  also have "\<dots> \<le> B * 2 powi (-51) / 1" using e(2) B by (intro divide_left_mono) simp_all
  also have "\<dots> \<le> 2 ^ 45 * 2 powi (-51)" using B45 by (simp add: power_int_def power_one_over)
  also have "\<dots> = 1 / 64" by (simp add: power_int_def power_one_over)
  finally have "\<bar>B / e - B / T\<bar> \<le> 1 / 64" .
  with r have "\<bar>?rate - B / T\<bar> < 1 + 1 / 64" by linarith
  then show ?thesis by (simp add: near_rate_def el B_def T_def)
qed

text \<open>
  C35: network rates. When the previous collection was a second or more ago (and less than the 292 years a duration holds), and the counters
  grew by at most \<open>2 ^ 45\<close> bytes, the snapshot has one entry for each interface that was there before,
  the loopback interface excepted, in the order of the library; each rate is the number of bytes counted since, divided by
  the seconds since the previous collection, to within \<open>1 + 1 / 64\<close>: the integer part is kept, and the two roundings
  to a float are below a sixty-fourth.
\<close>

theorem network_rates_per_second:
  assumes "rdNetIO rd = Some io" and "distinct (map ncName io)" and "prevTime c = Some t"
    and "Second \<le> now - t" and "is_int64 (now - t)"
    and "\<forall>n \<in> set io. \<forall>p. prevNetIO c (ncName n) = Some p \<longrightarrow>
      grew (ncBytesSent p) (ncBytesSent n) \<and> grew (ncBytesRecv p) (ncBytesRecv n)"
    and "stats = syNetworkIO (fst (metrics_Collect other rank rd now c))"
  shows "map niInterface stats =
      map ncName (filter (\<lambda>n. ncName n \<noteq> ''lo'' \<and> prevNetIO c (ncName n) \<noteq> None) io) \<and>
    (\<forall>st \<in> set stats. \<exists>n \<in> set io. \<exists>p. prevNetIO c (ncName n) = Some p \<and> niInterface st = ncName n \<and>
       near_rate (ncBytesSent p) (ncBytesSent n) (now - t) (niBytesSentSec st) \<and>
       near_rate (ncBytesRecv p) (ncBytesRecv n) (now - t) (niBytesRecvSec st))"
proof -
  have stats: "stats = net_rates other c now io" using assms(1,7) by (simp add: Collect_network)
  have "\<exists>n \<in> set io. \<exists>p. prevNetIO c (ncName n) = Some p \<and> niInterface st = ncName n \<and>
       near_rate (ncBytesSent p) (ncBytesSent n) (now - t) (niBytesSentSec st) \<and>
       near_rate (ncBytesRecv p) (ncBytesRecv n) (now - t) (niBytesRecvSec st)" if "st \<in> set stats" for st
    using net_rates_entry [OF that [unfolded stats] assms(3)] assms(4-6) per_second_near by fastforce
  with net_rates_names [OF assms(3)] stats show ?thesis by simp
qed

definition eth_now :: net_counters where
  "eth_now = \<lparr>ncName = ''eth0'', ncBytesSent = 3001, ncBytesRecv = 0\<rparr>"

definition eth_before :: Collector where
  "eth_before = \<lparr>prevDiskIO = Map.empty,
     prevNetIO = [''eth0'' \<mapsto> \<lparr>ncName = ''eth0'', ncBytesSent = 1000, ncBytesRecv = 0\<rparr>], prevTime = Some 0\<rparr>"

definition eth_readings :: readings where
  "eth_readings = \<lparr>rdCPU = None, rdPerCore = None, rdLoad = None, rdMemory = None, rdSwap = None,
     rdPartitions = None, rdUsage = (\<lambda>_. None), rdDiskIO = None, rdNetIO = Some [eth_now], rdUptime = None\<rparr>"

lemma eth_elapsed: "elapsed_seconds 2000000000 0 = Fin 2"
  using float_of_int_exact [of 2] float_of_int_exact [of 0]
  by (simp add: elapsed_seconds_def duration_seconds_def Second_def float_of_int_def float_of_rat_def
      signed_divide_int_def signed_modulo_int_def sgn_if)

lemma network_rates_per_second_witness:
  "\<exists>st. syNetworkIO (fst (metrics_Collect (\<lambda>_. 0) (\<lambda>_. 0) eth_readings 2000000000 eth_before)) = [st] \<and>
     niInterface st = ''eth0'' \<and> uint (niBytesSentSec st) \<in> {1000, 1001}"
proof -
  let ?stats = "syNetworkIO (fst (metrics_Collect (\<lambda>_. 0) (\<lambda>_. 0) eth_readings 2000000000 eth_before))"
  have "Second \<le> 2000000000 - 0" "is_int64 (2000000000 - 0)" by (simp_all add: Second_def is_int64_def)
  from network_rates_per_second [of eth_readings "[eth_now]" eth_before 0, OF _ _ _ this _ refl, of "\<lambda>_. 0" "\<lambda>_. 0"]
  have names: "map niInterface ?stats = [''eth0'']"
    and near: "\<forall>st \<in> set ?stats. near_rate 1000 3001 2000000000 (niBytesSentSec st)"
    by (simp_all add: eth_readings_def eth_before_def eth_now_def grew_def)
  obtain st where st: "?stats = [st]" "niInterface st = ''eth0''" using names by (auto simp: map_eq_Cons_conv)
  let ?u = "uint (niBytesSentSec st)"
  have u: "\<bar>of_int ?u - 2001 / 2 :: rat\<bar> < 1 + 1 / 64" using near st(1) by (simp add: near_rate_def)
  have "(999 :: rat) < of_int ?u" "(of_int ?u :: rat) < 1002" using u by linarith+
  then have "999 < ?u" "?u < 1002" by linarith+
  then have "?u \<in> {1000, 1001}" by auto
  with st show ?thesis by blast
qed

text \<open>
  A counter that starts again from zero. The difference is taken on unsigned words, so a counter that
  went from 1000 bytes back to 0 (a driver reset, an interface made again) is reported, after two
  seconds, as \<open>2 ^ 63\<close> bytes per second.
\<close>

theorem counter_reset_rate: "per_second other 0 1000 (elapsed_seconds 2000000000 0) = 9223372036854775808"
proof -
  have "\<lfloor>2305843009213693827 / 256 :: rat\<rfloor> = 9007199254740991" by (simp add: floor_eq_iff)
  then have "float_of_int 18446744073709550616 = Fin 18446744073709551616"
    by (simp add: float_of_int_def float_of_rat_def round_pos_def binade_def compute_floorlog Let_def round_half_even_def)
  moreover have "float_of_rat (18446744073709551616 / 2) = Fin 9223372036854775808"
    by (simp add: float_of_int_def float_of_rat_def round_pos_def binade_def compute_floorlog Let_def round_half_even_def)
  ultimately have "float_div (float_of_int (uint (0 - 1000 :: 64 word))) (Fin 2) = Fin 9223372036854775808" by simp
  then show ?thesis by (simp add: per_second_def eth_elapsed float_uint64_def float_trunc_def)
qed

section \<open>Connections\<close>

text \<open>Ten bytes are enough for a port, or for any 32-bit number.\<close>

lemma itoa_loop_digits:
  assumes "unat n < 10 ^ pos" and "pos \<le> length buf"
  shows "\<exists>pos' buf'. itoa_loop n pos buf = Some (pos', buf') \<and>
    drop pos' buf' = (if n = 0 then [] else dec (unat n)) @ drop pos buf"
  using assms
proof (induction n pos buf rule: itoa_loop.induct)
  case (1 n pos buf)
  show ?case
  proof (cases "n = 0")
    case True
    then show ?thesis by (simp add: itoa_loop.simps)
  next
    case False
    then have pos: "pos \<noteq> 0" using "1.prems"(1) by (auto intro: ccontr simp: unat_eq_zero)
    let ?c = "char_of (unat (n mod 10) + 48) :: char"
    let ?buf = "buf[pos - 1 := ?c]"
    have d: "unat (n div 10) = unat n div 10" "unat (n mod 10) = unat n mod 10"
      by (simp_all add: unat_div unat_mod)
    have "unat (n div 10) < 10 ^ (pos - 1)"
      using "1.prems"(1) pos by (cases pos) (simp_all add: d less_mult_imp_div_less)
    moreover have "pos - 1 \<le> length ?buf" using "1.prems"(2) by simp
    ultimately obtain pos' buf' where
      run: "itoa_loop (n div 10) (pos - 1) ?buf = Some (pos', buf')"
        "drop pos' buf' = (if n div 10 = 0 then [] else dec (unat (n div 10))) @ drop (pos - 1) ?buf"
      using "1.IH" [OF False pos] by blast
    have "drop (pos - 1) ?buf = ?c # drop pos buf"
      using "1.prems"(2) pos by (simp add: Cons_nth_drop_Suc [symmetric])
    moreover have "?c = digit_char (unat n mod 10)" by (simp add: digit_char_def d add.commute)
    moreover have "(n div 10 = 0) = (unat n < 10)" using d(1) by (metis div_eq_0_iff unat_eq_zero zero_neq_numeral)
    moreover have "dec (unat n) = (if unat n < 10 then [] else dec (unat n div 10)) @ [digit_char (unat n mod 10)]"
      by (subst dec.simps) simp
    moreover have "itoa_loop n pos buf = itoa_loop (n div 10) (pos - 1) ?buf"
      by (subst itoa_loop.simps) (simp add: False pos)
    ultimately show ?thesis using run False d(1) by simp
  qed
qed

lemma itoa_dec: "itoa n = Some (dec (unat n))"
proof (cases "n = 0")
  case True
  moreover have "dec 0 = ''0''" by code_simp
  ultimately show ?thesis by (simp add: itoa_def)
next
  case False
  have "unat n < 2 ^ 32" using unsigned_less [of n] by simp
  then have "unat n < 10 ^ 10" by simp
  with itoa_loop_digits [of n 10 "replicate 10 (CHR 0x00)"] False show ?thesis by (auto simp: itoa_def)
qed

definition shown_addr :: "addr \<Rightarrow> string" where
  "shown_addr a = (if adIP a = [] then [] else adIP a @ '':'' @ dec (unat (adPort a)))"

definition shown_conn :: "connection \<Rightarrow> ConnStat" where
  "shown_conn c = \<lparr>csProto = (if cnType c = 2 then ''udp'' else ''tcp''), csLocalAddr = shown_addr (cnLaddr c),
     csRemoteAddr = shown_addr (cnRaddr c), csStatus = cnStatus c\<rparr>"

lemma conn_stat_shown: "conn_stat c = Some (shown_conn c)"
  by (simp add: conn_stat_def format_addr_def itoa_dec shown_conn_def shown_addr_def)

lemma scan_conns_counts:
  "scan_conns i cs s = Some (s\<lparr>nsTCPEstablished := nsTCPEstablished s + int (length (filter (\<lambda>c. cnStatus c = ''ESTABLISHED'') cs)),
     nsTCPListening := nsTCPListening s + int (length (filter (\<lambda>c. cnStatus c = ''LISTEN'') cs)),
     nsConnections := nsConnections s @ map shown_conn (take (100 - i) cs)\<rparr>)"
proof (induction cs arbitrary: i s)
  case (Cons c cs)
  have "take (100 - i) (c # cs) = (if i < 100 then c # take (100 - (i + 1)) cs else [])"
    by (simp add: take_Cons')
  then show ?case
    using Cons.IH by (simp add: Let_def conn_stat_shown maxDetail_def count_status_def)
qed simp

text \<open>
  C36: the network snapshot. Every connection is counted, the established and the listening ones by
  their status, and the first hundred are shown with their addresses and decimal ports; no
  port overruns the buffer of \<open>itoa\<close>.
\<close>

theorem network_snapshot_counts:
  "CollectNetwork (Some cs) now = Some \<lparr>nsCollectedAt = now, nsActiveConns = int (length cs),
     nsTCPEstablished = int (length (filter (\<lambda>c. cnStatus c = ''ESTABLISHED'') cs)),
     nsTCPListening = int (length (filter (\<lambda>c. cnStatus c = ''LISTEN'') cs)),
     nsConnections = map shown_conn (take 100 cs)\<rparr>"
  by (simp add: CollectNetwork_def scan_conns_counts)

end
