(* ===== verification/Server_Steps.thy ===== *)
theory Server_Steps
  imports Server Http_Props Alerts_Props Urlcheck_Sys Metrics_Props
begin

text \<open>
  The server as a transition system: requests, ticks, the relay and the goroutines of the checks, in
  any order. Every step is, for the engine and the database, a sequence of steps of the
  alert engine's system, so that its invariants carry over to the whole process.
\<close>

section \<open>Calls that leave the alerts alone\<close>

definition quiet :: "world \<Rightarrow> world \<Rightarrow> bool" where
  "quiet = (\<lambda>w w'. storage_step w w' \<and> alerts_tbl (wdb w') = alerts_tbl (wdb w))\<^sup>*\<^sup>*"

lemma quiet_refl [simp, intro]: "quiet w w"
  by (simp add: quiet_def)

lemma quiet_trans: "quiet w w' \<Longrightarrow> quiet w' w'' \<Longrightarrow> quiet w w''"
  unfolding quiet_def by (rule rtranclp_trans)

lemma quiet_step: "storage_step w w' \<Longrightarrow> alerts_tbl (wdb w') = alerts_tbl (wdb w) \<Longrightarrow> quiet w w'"
  unfolding quiet_def by blast

lemma quiet_exec:
  assumes "storage_step w (snd (exec stmt w))"
    and "\<And>r d. stmt (wdb w) = Inr (r, d) \<Longrightarrow> alerts_tbl d = alerts_tbl (wdb w)"
  shows "quiet w (snd (exec stmt w))"
  by (rule quiet_step [OF assms(1)]) (rule exec_preserves [where P = "\<lambda>d. alerts_tbl d = alerts_tbl (wdb w)"], rule assms(2), auto)

lemma quiet_calls:
  "quiet w (snd (time_Now w))" "quiet w (snd (InsertURLCheck u w))" "quiet w (snd (UpdateURLCheck u w))"
  "quiet w (snd (DeleteURLCheck i w))" "quiet w (snd (InsertURLResult r w))" "quiet w (snd (InsertSSHEvent e w))"
  "quiet w (snd (InsertTunnelEvent v w))" "quiet w (snd (ActiveAlerts w))" "quiet w (snd (RecentAlerts n w))"
  "quiet w (snd (ListURLChecks w))" "quiet w (snd (GetURLCheck i w))" "quiet w (snd (URLResultHistory i n w))"
  "quiet w (snd (URLUptime i t w))" "quiet w (snd (RecentSSHEvents n w))" "quiet w (snd (FailedSSHByIP t w))"
  "quiet w (snd (RecentTunnelEvents n w))"
proof -
  show "quiet w (snd (time_Now w))" by (rule quiet_step [OF st_clock]) simp
  show "quiet w (snd (InsertURLCheck u w))"
    using st_insert_check [of w u] unfolding InsertURLCheck_def
    by (rule quiet_exec) (auto simp: sql_insert_check_def Let_def split: if_splits)
  show "quiet w (snd (UpdateURLCheck u w))"
    using st_update_check [of w u] unfolding UpdateURLCheck_def
    by (rule quiet_exec) (auto simp: sql_update_check_def split: if_splits)
  show "quiet w (snd (DeleteURLCheck i w))"
    using st_delete_check [of w i] unfolding DeleteURLCheck_def
    by (rule quiet_exec) (auto simp: sql_delete_check_def)
  show "quiet w (snd (InsertURLResult r w))"
    using st_insert_result [of w r] unfolding InsertURLResult_def
    by (rule quiet_exec) (auto simp: sql_insert_result_def Let_def split: if_splits)
  show "quiet w (snd (InsertSSHEvent e w))"
    using st_insert_ssh [of w e] unfolding InsertSSHEvent_def
    by (rule quiet_exec) (auto simp: sql_insert_ssh_def Let_def)
  show "quiet w (snd (InsertTunnelEvent v w))"
    using st_insert_tunnel [of w v] unfolding InsertTunnelEvent_def
    by (rule quiet_exec) (auto simp: sql_insert_tunnel_def Let_def)
qed (rule quiet_step, rule storage_step.intros, simp add: call_defs)+

text \<open>The same, for a call whose result is known.\<close>

lemma quiet_results:
  "time_Now w = (t, w') \<Longrightarrow> quiet w w'"
  "InsertURLCheck u w = (ri, w') \<Longrightarrow> quiet w w'" "UpdateURLCheck u w = (ru, w') \<Longrightarrow> quiet w w'"
  "DeleteURLCheck i w = (ru, w') \<Longrightarrow> quiet w w'" "ActiveAlerts w = (ra, w') \<Longrightarrow> quiet w w'"
  "RecentAlerts n w = (ra, w') \<Longrightarrow> quiet w w'" "GetURLCheck i w = (rg, w') \<Longrightarrow> quiet w w'"
  "URLResultHistory i n w = (rh, w') \<Longrightarrow> quiet w w'" "URLUptime i t w = (rf, w') \<Longrightarrow> quiet w w'"
  "RecentSSHEvents n w = (re, w') \<Longrightarrow> quiet w w'" "FailedSSHByIP t w = (rc, w') \<Longrightarrow> quiet w w'"
  "RecentTunnelEvents n w = (rt, w') \<Longrightarrow> quiet w w'" "ListURLChecks w = (rl, w') \<Longrightarrow> quiet w w'"
  by (metis quiet_calls snd_conv)+

lemma quiet_run: "quiet w w' \<Longrightarrow> alert_step\<^sup>*\<^sup>* (e, w) (e, w')"
  unfolding quiet_def
  by (induction rule: rtranclp_induct) (auto intro: rtranclp.rtrancl_into_rtrancl al_other)

section \<open>What a step does to the engine and the database\<close>

text \<open>\<open>engine_run s t\<close>: the engine and the database went from \<open>s\<close> to \<open>t\<close> by steps of the alert system.\<close>

definition engine_run :: "server \<Rightarrow> server \<Rightarrow> bool" where
  "engine_run s t \<longleftrightarrow> alert_step\<^sup>*\<^sup>* (svEngine s, svWorld s) (svEngine t, svWorld t)"

lemma engine_run_refl [simp]: "engine_run s s"
  by (simp add: engine_run_def)

lemma engine_run_trans: "engine_run s t \<Longrightarrow> engine_run t u \<Longrightarrow> engine_run s u"
  by (simp add: engine_run_def)

lemma engine_run_quiet: "svEngine t = svEngine s \<Longrightarrow> quiet (svWorld s) (svWorld t) \<Longrightarrow> engine_run s t"
  by (simp add: engine_run_def quiet_run)

lemma engine_run_same: "svEngine t = svEngine s \<Longrightarrow> svWorld t = svWorld s \<Longrightarrow> engine_run s t"
  by (simp add: engine_run_def)

lemma engine_run_one: "alert_step (svEngine s, svWorld s) (svEngine t, svWorld t) \<Longrightarrow> engine_run s t"
  by (simp add: engine_run_def)

lemma put_thresholds_run: "put_thresholds kvs e w = (r, e', w') \<Longrightarrow> alert_step\<^sup>*\<^sup>* (e, w) (e', w')"
proof (induction kvs arbitrary: e w)
  case (Cons kv kvs)
  obtain k v where kv: "kv = (k, v)" by (cases kv)
  obtain x e1 w1 where u: "UpdateThreshold k v e w = (x, e1, w1)" by (metis prod.collapse)
  then have s: "alert_step (e, w) (e1, w1)" by (rule al_update)
  show ?case
  proof (cases x)
    case None
    with Cons u kv have "alert_step\<^sup>*\<^sup>* (e1, w1) (e', w')" by simp
    with s show ?thesis by (rule converse_rtranclp_into_rtranclp)
  qed (use Cons.prems u kv s in auto)
qed simp

lemma Add_world: "Add ctx ch c w = (r, c', w') \<Longrightarrow> quiet w w'"
  using quiet_results(2) by (auto simp: Add_def Let_def split: prod.splits sum.splits)

lemma Update_world: "Update ctx ch c w = Some (r, c', w') \<Longrightarrow> quiet w w'"
  using quiet_results(3) by (auto simp: Update_def split: prod.splits sum.splits option.splits)

lemma Remove_world: "Remove i c w = Some (r, c', w') \<Longrightarrow> quiet w w'"
  using quiet_results(4) by (auto simp: Remove_def split: prod.splits sum.splits option.splits)

lemma snapshots_run:
  "HandleMetrics rq s = Some (out, s') \<Longrightarrow> engine_run s s'"
  "HandleServices rq s = Some (out, s') \<Longrightarrow> engine_run s s'"
  "HandleSecurity rq s = Some (out, s') \<Longrightarrow> engine_run s s'"
  "HandleTunnel rq s = Some (out, s') \<Longrightarrow> engine_run s s'"
  "HandleEvents rq s = Some (out, s') \<Longrightarrow> engine_run s s'"
  by (auto simp: HandleMetrics_def HandleServices_def HandleSecurity_def HandleTunnel_def HandleEvents_def serve_start_def
      Let_def write_defs intro!: engine_run_same split: if_splits)

lemma history_run: "HandleURLHistory i rq s = Some (out, s') \<Longrightarrow> engine_run s s'"
  by (auto simp: HandleURLHistory_def write_defs intro!: engine_run_quiet dest: quiet_results(8)
      split: if_splits prod.splits option.splits)

lemma alerts_run: "HandleAlerts rq s = Some (out, s') \<Longrightarrow> engine_run s s'"
  by (auto simp: HandleAlerts_def write_defs intro!: engine_run_quiet dest!: quiet_results(5,6) intro: quiet_trans
      split: if_splits prod.splits option.splits)

lemma acknowledge_run: "HandleAcknowledgeAlert i rq s = Some (out, s') \<Longrightarrow> engine_run s s'"
  by (auto simp: HandleAcknowledgeAlert_def write_defs intro!: engine_run_one intro: al_acknowledge
      split: if_splits prod.splits option.splits sum.splits)

lemma checks_run: "HandleURLChecks rq s = Some (out, s') \<Longrightarrow> engine_run s s'"
  by (auto simp: HandleURLChecks_def listURLChecks_def createURLCheck_def write_defs intro!: engine_run_quiet
      dest!: quiet_results(1) Add_world intro: quiet_trans split: if_splits prod.splits option.splits)

lemma update_run: "updateURLCheck i rq s = Some (out, s') \<Longrightarrow> engine_run s s'"
  by (auto simp: updateURLCheck_def write_defs intro!: engine_run_quiet dest!: quiet_results(7) Update_world intro: quiet_trans
      split: if_splits prod.splits option.splits sum.splits)

lemma check_run:
  assumes "HandleURLCheckByID i rq s = Some (out, s')"
  shows "engine_run s s'"
proof (cases "rqMethod rq = ''PUT''")
  case True
  with assms show ?thesis
    by (auto simp: HandleURLCheckByID_def writeError_def writeJSON_def split: prod.splits option.splits dest: update_run)
next
  case False
  with assms show ?thesis
    by (auto simp: HandleURLCheckByID_def write_defs intro!: engine_run_quiet dest: Remove_world
        split: if_splits prod.splits option.splits)
qed

lemma thresholds_run: "HandleThresholds rq s = Some (out, s') \<Longrightarrow> engine_run s s'"
  by (auto simp: HandleThresholds_def write_defs engine_run_def dest!: put_thresholds_run
      split: if_splits prod.splits option.splits)

lemma handler_run: "handler ep rq s = Some (out, s') \<Longrightarrow> engine_run s s'"
  by (cases ep) (auto dest: snapshots_run alerts_run history_run acknowledge_run checks_run check_run thresholds_run)

lemma logging_run:
  assumes "withLogging (handler ep) rq s = Some (out, s')"
  shows "engine_run s s'"
proof -
  obtain t w where t: "time_Now (svWorld s) = (t, w)" by (cases "time_Now (svWorld s)")
  obtain o2 s2 where h: "handler ep rq (s\<lparr>svWorld := w\<rparr>) = Some (o2, s2)"
    using assms t by (auto simp: withLogging_def split: option.splits)
  have "engine_run s (s\<lparr>svWorld := w\<rparr>)" by (rule engine_run_quiet) (use quiet_results(1) [OF t] in simp_all)
  moreover note handler_run [OF h]
  moreover have "engine_run s2 s'"
  proof (rule engine_run_quiet)
    show "svEngine s' = svEngine s2" using assms t h by (auto simp: withLogging_def split: outcome.splits prod.splits)
    show "quiet (svWorld s2) (svWorld s')"
      using assms t h by (auto simp: withLogging_def dest: quiet_results(1) split: outcome.splits prod.splits)
  qed
  ultimately show ?thesis by (metis engine_run_trans)
qed

lemma serve_run:
  assumes "serve assets compare cfg rq s = Some (out, s')"
  shows "engine_run s s'"
proof (cases "route (rqMethod rq) (rqPath rq) = AssetsEP")
  case True
  with assms show ?thesis by (simp add: serve_def)
next
  case False
  with assms logging_run show ?thesis by (auto simp: serve_api [OF refl False] split: if_splits)
qed

section \<open>Calls that keep a relation\<close>

text \<open>The subsystems that only read the clock and the tables and append to the logs of events and results keep every
  relation that those calls keep.\<close>

locale call_frame =
  fixes R :: "world \<Rightarrow> world \<Rightarrow> bool"
  assumes refl: "R w w"
    and trans: "R w w' \<Longrightarrow> R w' w'' \<Longrightarrow> R w w''"
    and clock: "R w (snd (time_Now w))"
    and stores: "R w (snd (InsertURLResult r w))" "R w (snd (InsertSSHEvent e w))" "R w (snd (InsertTunnelEvent v w))"
    and reads: "R w (snd (URLUptime i t w))" "R w (snd (RecentSSHEvents n w))" "R w (snd (FailedSSHByIP t w))"
      "R w (snd (RecentTunnelEvents n w))"
begin

lemma call_frames:
  "time_Now w = (t, w') \<Longrightarrow> R w w'" "URLUptime i t w = (rf, w') \<Longrightarrow> R w w'" "RecentSSHEvents n w = (re, w') \<Longrightarrow> R w w'"
  "FailedSSHByIP t w = (rc, w') \<Longrightarrow> R w w'"
  by (metis clock reads snd_conv)+

lemma parseTimestamp_frame: "parseTimestamp loc st y w = (t, w') \<Longrightarrow> R w w'"
  by (auto simp: parseTimestamp_def intro: refl dest: call_frames(1) split: option.splits)

lemma auth_line_frame: "ParseAuthLogLine loc l y w = (e, w') \<Longrightarrow> R w w'"
  by (auto simp: ParseAuthLogLine_def ssh_event_def intro: refl dest!: parseTimestamp_frame split: option.splits prod.splits)

lemma parse_lines_frame: "R w (parse_lines loc y ls w)"
proof (induction ls arbitrary: w)
  case (Cons l ls)
  obtain e w' where l: "ParseAuthLogLine loc l y w = (e, w')" by (metis prod.collapse)
  have "R w' (parse_lines loc y ls w'')" if "w'' = w' \<or> (\<exists>x. w'' = snd (InsertSSHEvent x w'))" for w''
    using that Cons stores(2) trans by blast
  with l auth_line_frame [OF l] show ?case by (auto intro: trans split: option.split)
qed (simp add: refl)

lemma parse_frame: "parse loc f p w = (err, p', w') \<Longrightarrow> R w w'"
  using parse_lines_frame
  by (auto simp: parse_def Let_def dest!: call_frames(1) intro: refl trans split: if_splits log_file.splits prod.splits)

lemma Snapshot_frame: "Snapshot p apt w = (r, w') \<Longrightarrow> R w w'"
  by (auto simp: Snapshot_def Let_def dest!: call_frames(1,3,4) intro: trans split: prod.splits option.splits)

lemma process_status_related: "process_status v p st d w = (st', d', w') \<Longrightarrow> R w w'"
  by (auto simp: process_status_def Let_def intro: refl dest!: call_frames(1) split: option.splits prod.splits)

lemma tunnel_Collect_frame: "Tunnel.Collect ps v d w = (st, d', w') \<Longrightarrow> R w w'"
proof -
  assume c: "Tunnel.Collect ps v d w = (st, d', w')"
  obtain t0 w0 where t0: "time_Now w = (t0, w0)" by (cases "time_Now w")
  let ?s = "\<lparr>tsCollectedAt = t0, tsRunning = False, tsPID = 0, tsUptimeSeconds = 0, tsTunnelName = [],
                 tsVersion = [], tsRecentEvents = []\<rparr>"
  obtain s1 d1 w1 where st: "(case find is_cloudflared (case ps of None \<Rightarrow> [] | Some qs \<Rightarrow> qs) of
      None \<Rightarrow> (?s, d, w0) | Some p \<Rightarrow> process_status v p ?s d w0) = (s1, d1, w1)" by (metis prod.collapse)
  have w1: "R w w1"
    using st call_frames(1) [OF t0] by (auto split: option.splits dest!: process_status_related intro: trans)
  obtain now w2 where t2: "time_Now w1 = (now, w2)" by (cases "time_Now w1")
  define w3 where "w3 = (case transition (lastRunning d1) (tsRunning s1) now of
      None \<Rightarrow> w2 | Some e \<Rightarrow> snd (InsertTunnelEvent e w2))"
  have "R w2 w3" using stores(3) by (auto simp: w3_def intro: refl split: option.split)
  moreover have "w' = snd (RecentTunnelEvents 10 w3)"
    using c t0 st t2 by (simp add: Collect_def Let_def w3_def split: prod.splits)
  ultimately show ?thesis
    using w1 call_frames(1) [OF t2] reads(4) trans by metis
qed

lemma worker_frame:
  assumes "worker_step cancelled (k, c, w) (p, c', w')"
  shows "R w w'"
proof -
  have n: "R w w'" if "named_check net d ch w = (r, w')" for net d ch r w w'
    using that by (auto simp: named_check_def doCheck_def dest!: call_frames(1) intro: trans
        split: prod.splits option.splits sum.splits)
  have m: "R w w'" if "measure_uptime ch w = (u, w')" for ch u w w'
    using that by (auto simp: measure_uptime_def dest!: call_frames(1,2) intro: trans split: prod.splits sum.splits)
  from assms show ?thesis
    by (rule worker_stepE) (auto simp: store_result_def intro: n m refl stores(1))
qed

lemma slow_tick_frame: "R (svWorld (psServer p)) (svWorld (psServer (slow_tick marshal si p)))"
proof -
  obtain err parser w1 where a: "parse (siLocation si) (siLogFile si) (psParser p) (svWorld (psServer p)) = (err, parser, w1)"
    by (metis prod.collapse)
  obtain sec x w2 where b: "Snapshot parser (siApt si) w1 = ((sec, x), w2)" by (metis prod.collapse)
  obtain now w3 where c: "time_Now w2 = (now, w3)" by (cases "time_Now w2")
  have "R (svWorld (psServer p)) w3"
    using parse_frame [OF a] Snapshot_frame [OF b] call_frames(1) [OF c] trans by metis
  with a b c show ?thesis by (simp add: slow_tick_def Let_def UpdateLatest_def)
qed

text \<open>The fast tick in its parts: what was collected, evaluated and posted.\<close>

lemma fast_tick_parts:
  obtains snap col app net tun det w5 fired err e w6 where
    "fast_tick marshal fi p = Some (p\<lparr>psServer := UpdateLatest
        (no_data\<lparr>ltSystem := Some snap, ltApp := Some app, ltNetwork := Some net, ltTunnel := Some tun\<rparr>)
        ((psServer p)\<lparr>svEngine := e, svBroker := BroadcastJSON marshal ''tunnel'' (TunnelPayload tun)
            (BroadcastJSON marshal ''metrics'' (MetricsPayload snap app net) (post_alerts marshal fired (svBroker (psServer p)))),
          svWorld := w6\<rparr>), psCollector := col, psDetector := det\<rparr>)"
    and "\<exists>now. metrics_Collect (fiConvert fi) (fiOrder fi) (fiReadings fi) now (psCollector p) = (snap, col)"
    and "R (svWorld (psServer p)) w5"
    and "Evaluate (all_metrics snap (Summaries (fiOrder fi) (svChecker (psServer p)))) (svEngine (psServer p)) w5 =
      ((fired, err), e, w6)"
proof -
  let ?w = "svWorld (psServer p)"
  obtain t1 w1 where t1: "time_Now ?w = (t1, w1)" by (cases "time_Now ?w")
  obtain t2 w2 where t2: "time_Now w1 = (t2, w2)" by (cases "time_Now w1")
  obtain t3 w3 where t3: "time_Now w2 = (t3, w3)" by (cases "time_Now w2")
  obtain t4 w4 where t4: "time_Now w3 = (t4, w4)" by (cases "time_Now w3")
  obtain snap col where snap: "metrics_Collect (fiConvert fi) (fiOrder fi) (fiReadings fi) t1 (psCollector p) = (snap, col)"
    by (metis prod.collapse)
  obtain net where net: "CollectNetwork (fiConns fi) t4 = Some net"
    by (cases "fiConns fi") (auto simp: CollectNetwork_def scan_conns_counts)
  obtain tun det w5 where tun: "Tunnel.Collect (fiProcs fi) (fiVersion fi) (psDetector p) w4 = (tun, det, w5)"
    by (metis prod.collapse)
  obtain fired err e w6 where ev: "Evaluate (all_metrics snap (Summaries (fiOrder fi) (svChecker (psServer p))))
      (svEngine (psServer p)) w5 = ((fired, err), e, w6)" by (metis prod.collapse)
  have "R ?w w5"
    using call_frames(1) [OF t1] call_frames(1) [OF t2] call_frames(1) [OF t3] call_frames(1) [OF t4]
      tunnel_Collect_frame [OF tun] trans by metis
  show ?thesis
    by (rule that [where snap = snap and col = col and net = net and tun = tun and det = det and fired = fired
          and e = e and ?w6.0 = w6 and err = err and ?w5.0 = w5
          and app = "CollectApp (psStartTime p) t2 t3 (fiGoRoutines fi) (fiMemStats fi) (fiProcess fi)"])
      (use t1 t2 t3 t4 snap net tun ev \<open>R ?w w5\<close> in \<open>auto simp: fast_tick_def Let_def\<close>)
qed

end

interpretation still: call_frame quiet
  by unfold_locales (auto intro: quiet_calls quiet_trans)

section \<open>Ticks\<close>

lemma UpdateLatest_frame [simp]:
  "svEngine (UpdateLatest d s) = svEngine s" "svWorld (UpdateLatest d s) = svWorld s"
  "svChecker (UpdateLatest d s) = svChecker s" "svBroker (UpdateLatest d s) = svBroker s"
  by (simp_all add: UpdateLatest_def Let_def)

lemma fast_tick_run:
  assumes "fast_tick marshal fi p = Some p'"
  shows "engine_run (psServer p) (psServer p')" and "svChecker (psServer p') = svChecker (psServer p)"
proof -
  obtain snap col app net tun det w5 fired err e w6 where
    tick: "fast_tick marshal fi p = Some (p\<lparr>psServer := UpdateLatest
        (no_data\<lparr>ltSystem := Some snap, ltApp := Some app, ltNetwork := Some net, ltTunnel := Some tun\<rparr>)
        ((psServer p)\<lparr>svEngine := e, svBroker := BroadcastJSON marshal ''tunnel'' (TunnelPayload tun)
            (BroadcastJSON marshal ''metrics'' (MetricsPayload snap app net) (post_alerts marshal fired (svBroker (psServer p)))),
          svWorld := w6\<rparr>), psCollector := col, psDetector := det\<rparr>)"
    and "quiet (svWorld (psServer p)) w5"
    and ev: "Evaluate (all_metrics snap (Summaries (fiOrder fi) (svChecker (psServer p)))) (svEngine (psServer p)) w5 =
      ((fired, err), e, w6)"
    by (rule still.fast_tick_parts [of marshal fi p])
  then have "alert_step\<^sup>*\<^sup>* (svEngine (psServer p), svWorld (psServer p)) (svEngine (psServer p), w5)"
    by (blast intro: quiet_run)
  moreover have "alert_step (svEngine (psServer p), w5) (e, w6)" using ev by (rule al_evaluate)
  ultimately have "alert_step\<^sup>*\<^sup>* (svEngine (psServer p), svWorld (psServer p)) (e, w6)"
    by (rule rtranclp.rtrancl_into_rtrancl)
  moreover have "svEngine (psServer p') = e" "svWorld (psServer p') = w6" using assms tick by auto
  ultimately show "engine_run (psServer p) (psServer p')" by (simp add: engine_run_def)
  show "svChecker (psServer p') = svChecker (psServer p)" using assms tick by auto
qed

lemma slow_tick_run:
  "engine_run (psServer p) (psServer (slow_tick marshal si p))" "svChecker (psServer (slow_tick marshal si p)) = svChecker (psServer p)"
proof -
  have e: "svEngine (psServer (slow_tick marshal si p)) = svEngine (psServer p)
      \<and> svChecker (psServer (slow_tick marshal si p)) = svChecker (psServer p)"
    by (simp add: slow_tick_def Let_def split: prod.split)
  then show "engine_run (psServer p) (psServer (slow_tick marshal si p))"
    using still.slow_tick_frame by (intro engine_run_quiet) simp_all
  show "svChecker (psServer (slow_tick marshal si p)) = svChecker (psServer p)" using e by simp
qed

lemma purge_tick_run: "engine_run (psServer p) (psServer (purge_tick p))"
  by (rule engine_run_one) (auto simp: purge_tick_def intro: al_purge surjective_pairing)

end
