(* ===== verification/Server_Props.thy ===== *)
theory Server_Props
  imports Server_Steps
begin

text \<open>
  Properties of the whole process: it never panics and keeps the invariants of its components
  under any interleaving of requests, ticks and goroutines; what a tick does to the alerts and to the
  event stream.
\<close>

section \<open>The checker inside the server\<close>

lemma call_run_ok: "checker_ok c \<Longrightarrow> \<exists>k' c' w'. call_run n k c w = Some (k', c', w') \<and> checker_ok c'"
proof (induction n arbitrary: k c w)
  case (Suc n)
  from call_step_ok [OF Suc.prems, of k w] obtain k1 c1 w1 where "call_step k c w = Some (k1, c1, w1)" "checker_ok c1" by blast
  with Suc.IH [of c1 k1 w1] show ?case by auto
qed simp

lemma operations_ok:
  assumes "checker_ok c"
  shows "Add ctx ch c w = (r, c', w') \<Longrightarrow> checker_ok c'"
    and "\<exists>r' c' w'. Update ctx ch c w = Some (r', c', w') \<and> checker_ok c'"
    and "\<exists>r' c' w'. Remove i c w = Some (r', c', w') \<and> checker_ok c'"
proof -
  show "checker_ok c'" if "Add ctx ch c w = (r, c', w')"
    using call_run_ok [OF assms, of 3 "AddInsert ctx ch" w] that by (simp add: Add_steps)
  show "\<exists>r' c' w'. Update ctx ch c w = Some (r', c', w') \<and> checker_ok c'"
    using call_run_ok [OF assms, of 4 "UpdateRow ctx ch" w] by (auto simp: Update_steps)
  show "\<exists>r' c' w'. Remove i c w = Some (r', c', w') \<and> checker_ok c'"
    using call_run_ok [OF assms, of 3 "RemoveStop ctx i" w] by (auto simp: Remove_steps)
qed

definition keeps_checker :: "(outcome \<times> server) option \<Rightarrow> bool" where
  "keeps_checker x \<longleftrightarrow> (\<exists>out s. x = Some (out, s) \<and> checker_ok (svChecker s))"

lemma keeps_simps:
  "keeps_checker (writeJSON code b s) = checker_ok (svChecker s)"
  "keeps_checker (writeError code msg s) = checker_ok (svChecker s)"
  "keeps_checker (method_not_allowed s) = checker_ok (svChecker s)"
  by (auto simp: keeps_checker_def write_defs)

lemma update_keeps: "checker_ok (svChecker s) \<Longrightarrow> keeps_checker (updateURLCheck i rq s)"
  using operations_ok(2) [of "svChecker s"]
  by (auto simp: updateURLCheck_def keeps_simps split: prod.split sum.split option.split) (metis option.distinct(1) option.inject prod.inject)+

lemma check_keeps: "checker_ok (svChecker s) \<Longrightarrow> keeps_checker (HandleURLCheckByID i rq s)"
  using operations_ok(3) [of "svChecker s"]
  by (auto simp: HandleURLCheckByID_def keeps_simps update_keeps split: prod.split option.split) (metis option.distinct(1) option.inject prod.inject)+

lemma handler_keeps: "checker_ok (svChecker s) \<Longrightarrow> ep \<noteq> AssetsEP \<Longrightarrow> keeps_checker (handler ep rq s)"
  by (cases ep)
    (auto simp: HandleMetrics_def HandleAlerts_def HandleAcknowledgeAlert_def HandleURLChecks_def listURLChecks_def createURLCheck_def
      HandleURLHistory_def HandleThresholds_def HandleServices_def HandleSecurity_def HandleTunnel_def Let_def keeps_simps check_keeps
      HandleEvents_def serve_start_def keeps_checker_def [of "Some _"]
      split: prod.split option.split sum.split dest: operations_ok(1))

lemma serve_keeps:
  assumes "checker_ok (svChecker s)"
  shows "keeps_checker (serve assets compare cfg rq s)"
proof (cases "route (rqMethod rq) (rqPath rq) = AssetsEP \<or> \<not> authorized compare cfg rq")
  case True
  then show ?thesis
    using assms serve_api [OF refl, of rq assets compare cfg s]
    by (cases "route (rqMethod rq) (rqPath rq) = AssetsEP") (auto simp: keeps_checker_def serve_def)
next
  case False
  let ?ep = "route (rqMethod rq) (rqPath rq)"
  obtain t w where t: "time_Now (svWorld s) = (t, w)" by (cases "time_Now (svWorld s)")
  have "keeps_checker (handler ?ep rq (s\<lparr>svWorld := w\<rparr>))" using handler_keeps [of "s\<lparr>svWorld := w\<rparr>" ?ep] assms False by simp
  then have "keeps_checker (withLogging (handler ?ep) rq s)"
    using t by (auto simp: withLogging_def keeps_checker_def split: outcome.split prod.split)
  then show ?thesis using False by (simp add: serve_api)
qed

section \<open>The transition system\<close>

text \<open>The broker's own goroutines change the broker alone; they are the subject of the theory \<open>Sse_Props\<close>.\<close>

inductive server_step :: "(string \<Rightarrow> response) \<Rightarrow> (string \<Rightarrow> string \<Rightarrow> bool) \<Rightarrow> Config \<Rightarrow> (payload \<Rightarrow> string option)
    \<Rightarrow> process \<Rightarrow> process \<Rightarrow> bool"
  for assets :: "string \<Rightarrow> response" and compare :: "string \<Rightarrow> string \<Rightarrow> bool" and cfg :: Config
    and marshal :: "payload \<Rightarrow> string option" where
  sv_request: "serve assets compare cfg rq (psServer p) = Some (out, s) \<Longrightarrow>
    server_step assets compare cfg marshal p (p\<lparr>psServer := s\<rparr>)"
| sv_fast: "fast_tick marshal fi p = Some p' \<Longrightarrow> server_step assets compare cfg marshal p p'"
| sv_slow: "server_step assets compare cfg marshal p (slow_tick marshal si p)"
| sv_purge: "server_step assets compare cfg marshal p (purge_tick p)"
| sv_relay: "server_step assets compare cfg marshal p (relayURLResults marshal p)"
| sv_worker: "n < length (workers (svChecker (psServer p))) \<Longrightarrow>
    worker_step cancelled (workers (svChecker (psServer p)) ! n, svChecker (psServer p), svWorld (psServer p)) (q, c, w) \<Longrightarrow>
    server_step assets compare cfg marshal p (p\<lparr>psServer := (psServer p)\<lparr>svChecker := set_worker n q c, svWorld := w\<rparr>\<rparr>)"
| sv_broker: "server_step assets compare cfg marshal p (p\<lparr>psServer := (psServer p)\<lparr>svBroker := b\<rparr>\<rparr>)"

lemma relay_frame:
  "svEngine (psServer (relayURLResults marshal p)) = svEngine (psServer p)"
  "svWorld (psServer (relayURLResults marshal p)) = svWorld (psServer p)"
  "checker_ok (svChecker (psServer p)) \<Longrightarrow> checker_ok (svChecker (psServer (relayURLResults marshal p)))"
  by (auto simp: relayURLResults_def Let_def checker_ok_def split: list.split)

lemma server_step_run: "server_step assets compare cfg marshal p p' \<Longrightarrow> engine_run (psServer p) (psServer p')"
proof (induction rule: server_step.induct)
  case (sv_worker n p cancelled q c w)
  then show ?case using still.worker_frame by (intro engine_run_quiet) auto
qed (auto intro: serve_run fast_tick_run slow_tick_run purge_tick_run engine_run_same relay_frame)

lemma server_step_checker:
  "server_step assets compare cfg marshal p p' \<Longrightarrow> checker_ok (svChecker (psServer p)) \<Longrightarrow> checker_ok (svChecker (psServer p'))"
proof (induction rule: server_step.induct)
  case (sv_request rq p out s)
  then show ?case using serve_keeps [OF sv_request(2), of assets compare cfg rq] by (simp add: keeps_checker_def)
next
  case (sv_worker n p cancelled q c w)
  then show ?case by (auto intro: worker_step_ok)
qed (simp_all add: fast_tick_run slow_tick_run purge_tick_def relay_frame)

lemma server_steps_run: "(server_step assets compare cfg marshal)\<^sup>*\<^sup>* p p' \<Longrightarrow>
    engine_run (psServer p) (psServer p') \<and> (checker_ok (svChecker (psServer p)) \<longrightarrow> checker_ok (svChecker (psServer p')))"
  by (induction rule: rtranclp_induct) (auto intro: engine_run_trans server_step_run server_step_checker)

lemma start_parts:
  assumes "main_start gen mkdir stat_ok args t w = Inr (cfg, p)"
  shows "\<exists>w1 err e1 w2. storage_Open (cfDataDir cfg @ ''/monitor.db'') w = (Inr (), w1) \<and>
    LoadThresholds NewEngine w1 = (err, e1, w2) \<and> svEngine (psServer p) = e1 \<and> quiet w2 (svWorld (psServer p)) \<and>
    checker_ok (svChecker (psServer p))"
proof -
  obtain w1 err e1 w2 x c w3 where s: "storage_Open (cfDataDir cfg @ ''/monitor.db'') w = (Inr (), w1)"
    "LoadThresholds NewEngine w1 = (err, e1, w2)" "Start 0 NewChecker w2 = (x, c, w3)"
    "svEngine (psServer p) = e1" "svWorld (psServer p) = w3" "svChecker (psServer p) = c"
    using assms by (auto simp: main_start_def split: sum.splits prod.splits)
  have "checker_ok c \<and> quiet w2 w3"
    using s(3) NewChecker_ok by (auto simp: Start_def fold_start_ok dest: quiet_results(13) split: prod.splits option.splits)
  with s show ?thesis by blast
qed

lemma storage_Open_alerts: "alerts_tbl (wdb (snd (storage_Open path w))) = alerts_tbl (wdb w)"
proof -
  have e: "alerts_tbl (wdb w') = alerts_tbl (wdb w)" if "exec stmt w = (r, w')"
    "\<And>x d. stmt (wdb w) = Inr (x, d) \<Longrightarrow> alerts_tbl d = alerts_tbl (wdb w)" for stmt r w w'
    using exec_preserves [where P = "\<lambda>d. alerts_tbl d = alerts_tbl (wdb w)" and stmt = stmt and w = w] that by fastforce
  show ?thesis
    by (auto simp: storage_Open_def migrate_def split: prod.split sum.split dest!: e)
qed

lemma start_tracked:
  assumes "db_wf (wdb w)" and "main_start gen mkdir stat_ok args t w = Inr (cfg, p)"
  shows "engine_tracked (svEngine (psServer p), svWorld (psServer p))"
proof -
  obtain w1 err e1 w2 where s: "storage_Open (cfDataDir cfg @ ''/monitor.db'') w = (Inr (), w1)"
    "LoadThresholds NewEngine w1 = (err, e1, w2)" "svEngine (psServer p) = e1" "quiet w2 (svWorld (psServer p))"
    using start_parts [OF assms(2)] by blast
  have "db_wf (wdb w1)" using storage_Open_wf [OF assms(1), of "cfDataDir cfg @ ''/monitor.db''"] s(1) by simp
  then have "engine_tracked (NewEngine, w1)" by (simp add: engine_tracked_def alert_db.tracked_def NewEngine_def)
  then have "engine_tracked (e1, w2)" using s(2) by (rule load_tracked)
  with alert_sys.inv_steps [OF quiet_run [OF s(4)]] s(3) show ?thesis by blast
qed

lemma start_exact:
  assumes "fresh_db w" and "healthy w" and "main_start gen mkdir stat_ok args t w = Inr (cfg, p)"
  shows "engine_exact (svEngine (psServer p), svWorld (psServer p))"
proof -
  obtain w1 err e1 w2 where s: "storage_Open (cfDataDir cfg @ ''/monitor.db'') w = (Inr (), w1)"
    "LoadThresholds NewEngine w1 = (err, e1, w2)" "svEngine (psServer p) = e1" "quiet w2 (svWorld (psServer p))"
    using start_parts [OF assms(3)] by blast
  have "engine_exact (NewEngine, w)" using assms(1,2) by (intro alert_init_exact) (simp add: alert_init_def)
  moreover have "alert_step (NewEngine, w) (NewEngine, w1)"
    using al_other [OF st_open storage_Open_alerts] s(1) by (metis snd_conv)
  moreover have "alert_step (NewEngine, w1) (e1, w2)" using s(2) by (rule al_restart)
  ultimately have "engine_exact (e1, w2)" using alert_step_exact by blast
  with alert_exact.inv_steps [OF quiet_run [OF s(4)]] s(3) show ?thesis by blast
qed

section \<open>The whole process\<close>

text \<open>
  C2: the process. Started on any well-formed database, and after any sequence of requests,
  ticks, purges, relayed results and steps of check goroutines, whatever the database answers: no
  request and no tick panics, and every alert the engine holds active is an unresolved row of its kind. On a
  database that was new and serves every call, the two agree exactly.
\<close>

theorem server_never_panics:
  assumes "db_wf (wdb w)" and "main_start gen mkdir stat_ok args t w = Inr (cfg, p0)"
    and "(server_step assets compare cfg marshal)\<^sup>*\<^sup>* p0 p"
  defines "active \<equiv> activeAlerts (svEngine (psServer p))"
    and "open_row \<equiv> \<lambda>i k r. r \<in> set (alerts_tbl (wdb (svWorld (psServer p)))) \<and> ar_id r = i \<and> ar_kind r = k \<and> ar_resolved_at r = None"
  shows "serve assets compare cfg rq (psServer p) \<noteq> None \<and> fast_tick marshal fi p \<noteq> None \<and>
    (\<forall>k i. active k = Some i \<longrightarrow> (\<exists>r. open_row i k r)) \<and>
    (fresh_db w \<and> healthy w \<longrightarrow> (\<forall>k i. active k = Some i \<longleftrightarrow> (\<exists>r. open_row i k r)))"
proof -
  have c: "checker_ok (svChecker (psServer p0))" using start_parts [OF assms(2)] by blast
  with server_steps_run [OF assms(3)] have run: "engine_run (psServer p0) (psServer p)" and ok: "checker_ok (svChecker (psServer p))"
    by simp_all
  have tr: "engine_tracked (svEngine (psServer p), svWorld (psServer p))"
    using alert_sys.inv_steps [OF run [unfolded engine_run_def]] start_tracked [OF assms(1,2)] by blast
  then have wf: "db_wf (wdb (svWorld (psServer p)))" by (simp add: engine_tracked_def)
  have row: "open_alerts (svWorld (psServer p)) i = Some k \<longleftrightarrow> (\<exists>r. open_row i k r)" for i k
    unfolding open_alerts_iff [OF wf] open_row_def by blast
  have "active k = Some i \<longrightarrow> (\<exists>r. open_row i k r)" for k i
    using tr row by (simp add: engine_tracked_def alert_db.tracked_def active_def)
  moreover have "active k = Some i \<longleftrightarrow> (\<exists>r. open_row i k r)" if "fresh_db w" "healthy w" for k i
  proof -
    have "engine_exact (svEngine (psServer p), svWorld (psServer p))"
      using alert_exact.inv_steps [OF run [unfolded engine_run_def]] start_exact [OF that assms(2)] by blast
    then show ?thesis using row by (simp add: engine_exact_def engine_synced_def alert_db.synced_def active_def)
  qed
  moreover have "serve assets compare cfg rq (psServer p) \<noteq> None"
    using serve_keeps [OF ok, of assets compare cfg rq] by (auto simp: keeps_checker_def)
  moreover have "fast_tick marshal fi p \<noteq> None" by (rule still.fast_tick_parts [of marshal fi p]) simp
  ultimately show ?thesis by blast
qed

lemma start_fresh: "\<exists>cfg p. main_start Inr (\<lambda>_. None) (\<lambda>_. True) [] 0 (fresh_world 0) = Inr (cfg, p)"
proof -
  obtain cfg where cfg: "ParseFlags Inr (\<lambda>_. None) [] = Inr cfg"
    by (simp add: ParseFlags_def basic_auth_def default_flags_def)
  let ?path = "cfDataDir cfg @ ''/monitor.db''"
  obtain w1 where w1: "exec (\<lambda>d. Inr (dsn ?path, d)) (fresh_world 0) = (Inr (dsn ?path), w1)" "healthy w1"
    using exec_healthy_ex [where stmt = "\<lambda>d. Inr (dsn ?path, d)", OF healthy_fresh] by blast
  obtain w2 where w2: "migrate w1 = (Inr (), w2)"
    unfolding migrate_def using exec_healthy_ex [where stmt = "\<lambda>d. Inr ((), d\<lparr>thresholds_tbl := seed_thresholds (thresholds_tbl d)\<rparr>)", OF w1(2)] by blast
  have "storage_Open ?path (fresh_world 0) = (Inr (), w2)" using w1(1) w2 by (simp add: storage_Open_def)
  with cfg show ?thesis by (auto simp: main_start_def split: prod.split)
qed

lemma server_never_panics_witness:
  "\<exists>cfg p. main_start Inr (\<lambda>_. None) (\<lambda>_. True) [] 0 (fresh_world 0) = Inr (cfg, p) \<and>
     serve (\<lambda>_. unauthorized) (=) cfg (get_request ''/api/metrics'') (psServer p) \<noteq> None"
proof -
  obtain cfg p where p: "main_start Inr (\<lambda>_. None) (\<lambda>_. True) [] 0 (fresh_world 0) = Inr (cfg, p)" using start_fresh by blast
  have "db_wf (wdb (fresh_world 0))" by (simp add: fresh_world_def)
  from server_never_panics [OF this p rtranclp.rtrancl_refl] p show ?thesis by blast
qed

section \<open>What a tick reports\<close>

text \<open>The events of a list of broadcasts, those left out whose JSON is refused.\<close>

definition posted_events :: "(payload \<Rightarrow> string option) \<Rightarrow> (string \<times> payload) list \<Rightarrow> Event list" where
  "posted_events marshal ps = List.map_filter (\<lambda>(t, v). map_option (\<lambda>d. \<lparr>evType = t, evData = d\<rparr>) (marshal v)) ps"

lemma BroadcastJSON_queue:
  "length (broadcast b) \<le> 256 \<Longrightarrow>
   broadcast (BroadcastJSON marshal t v b) = take 256 (broadcast b @ posted_events marshal [(t, v)])"
  by (auto simp: BroadcastJSON_def Broadcast_def posted_events_def List.map_filter_def split: option.split)

lemma posted_events_append: "posted_events marshal (ps @ qs) = posted_events marshal ps @ posted_events marshal qs"
  by (simp add: posted_events_def map_filter_append)

lemma BroadcastJSON_all:
  assumes "length (broadcast b) \<le> 256"
  shows "broadcast (fold (\<lambda>(t, v). BroadcastJSON marshal t v) ps b) = take 256 (broadcast b @ posted_events marshal ps)"
  using assms
proof (induction ps arbitrary: b)
  case Nil
  then show ?case by (simp add: posted_events_def List.map_filter_def)
next
  case (Cons q ps)
  obtain t v where q: "q = (t, v)" by (cases q)
  let ?b = "BroadcastJSON marshal t v b"
  have b: "broadcast ?b = take 256 (broadcast b @ posted_events marshal [(t, v)])"
    using Cons.prems by (rule BroadcastJSON_queue)
  then have "broadcast (fold (\<lambda>(t, v). BroadcastJSON marshal t v) ps ?b) =
      take 256 (take 256 (broadcast b @ posted_events marshal [q]) @ posted_events marshal ps)"
    using Cons.IH [of ?b] q by simp
  also have "\<dots> = take 256 (broadcast b @ posted_events marshal ([q] @ ps))"
    unfolding posted_events_append by (simp add: min_def)
  finally show ?case using q by simp
qed

lemma post_alerts_fold: "post_alerts marshal fired b = fold (\<lambda>(t, v). BroadcastJSON marshal t v) (map (\<lambda>a. (''alert'', AlertPayload a)) fired) b"
  by (induction fired arbitrary: b) (simp_all add: post_alerts_def)

text \<open>The kind of a URL's alert is none of the other kinds.\<close>

lemma url_kind_breached:
  "''url_down:'' @ format_int i \<in> breached_kinds th m \<longleftrightarrow> (\<exists>u \<in> set (mURLStats m). uaID u = i \<and> \<not> uaUp u)"
proof -
  have "breaching (url_check prt u) = (\<not> uaUp u)" "ckKind (url_check prt u) = ''url_down:'' @ format_int (uaID u)" for prt u
    by (simp_all add: breaching_def enabled_def url_check_def Let_def)
  moreover have "format_int i = format_int j \<longleftrightarrow> i = j" for j using format_int_inj by blast
  ultimately show ?thesis
    by (auto simp: breached_kinds_def alert_checks_def gauge_check_def disk_check_def Let_def image_iff)
qed

lemma url_kind_enabled:
  "u \<in> set (mURLStats m) \<Longrightarrow> ''url_down:'' @ format_int (uaID u) \<in> enabled_kinds th m"
  unfolding enabled_kinds_def
  by (rule image_eqI [where x = "url_check (\<lambda>_. True) u"]) (auto simp: alert_checks_def url_check_def enabled_def Let_def)

lemma summaries_ids:
  assumes "checker_ok c"
  shows "distinct (map (\<lambda>m. ucID (smCheck m)) (Summaries rank c))"
    and "m \<in> set (Summaries rank c) \<longleftrightarrow> map_of (summaries c) (ucID (smCheck m)) = Some m"
proof -
  have kd: "keys_distinct (summaries c)" and ok: "\<And>i m. map_of (summaries c) i = Some m \<Longrightarrow> ucID (smCheck m) = i"
    using assms by (auto simp: checker_ok_def summary_ok_def)
  have entry: "ucID (smCheck (snd x)) = fst x" if "x \<in> set (summaries c)" for x
    using that ok map_of_in_set [OF kd, of "fst x" "snd x"] by simp
  then have "map (\<lambda>m. ucID (smCheck m)) (map snd (summaries c)) = map fst (summaries c)" by simp
  then have "distinct (map (\<lambda>m. ucID (smCheck m)) (map snd (summaries c)))" using kd by (simp only: keys_distinct_def)
  then show "distinct (map (\<lambda>m. ucID (smCheck m)) (Summaries rank c))"
    unfolding Summaries_def by (metis mset_eq_imp_distinct_iff mset_map mset_visit)
  show "m \<in> set (Summaries rank c) \<longleftrightarrow> map_of (summaries c) (ucID (smCheck m)) = Some m"
  proof
    assume "m \<in> set (Summaries rank c)"
    then obtain x where "x \<in> set (summaries c)" "m = snd x" by (auto simp: Summaries_def)
    with entry [of x] show "map_of (summaries c) (ucID (smCheck m)) = Some m"
      using map_of_in_set [OF kd, of "fst x" "snd x"] by simp
  next
    assume "map_of (summaries c) (ucID (smCheck m)) = Some m"
    then show "m \<in> set (Summaries rank c)" unfolding Summaries_def set_visit set_map by (metis image_eqI map_of_SomeD snd_conv)
  qed
qed

lemma url_alert_simps [simp]:
  "uaID (url_alert m) = ucID (smCheck m)"
  "uaUp (url_alert m) \<longleftrightarrow> (\<forall>r. smLastResult m = Some r \<longrightarrow> rsUp r)"
  by (auto simp: url_alert_def split: option.split)

lemma url_alerts_exact:
  assumes "checker_ok c" and "GetSummary i c = Some m"
    and "A = breached_kinds th (all_metrics snap (Summaries rank c)) \<union>
      (B - enabled_kinds th (all_metrics snap (Summaries rank c)))"
  shows "''url_down:'' @ format_int i \<in> A \<longleftrightarrow> (\<exists>r. smLastResult m = Some r \<and> \<not> rsUp r)"
proof -
  let ?m = "all_metrics snap (Summaries rank c)"
  have i: "i = ucID (smCheck m)" using assms(1,2) by (auto simp: GetSummary_def checker_ok_def summary_ok_def)
  then have m: "m \<in> set (Summaries rank c)" using assms(2) summaries_ids(2) [OF assms(1)] by (simp add: GetSummary_def)
  then have "''url_down:'' @ format_int i \<in> enabled_kinds th ?m"
    using url_kind_enabled [of "url_alert m" ?m th] i by (simp add: all_metrics_def)
  then have "''url_down:'' @ format_int i \<in> A \<longleftrightarrow> ''url_down:'' @ format_int i \<in> breached_kinds th ?m"
    unfolding assms(3) by blast
  also have "\<dots> \<longleftrightarrow> (\<exists>m' \<in> set (Summaries rank c). ucID (smCheck m') = i \<and> (\<exists>r. smLastResult m' = Some r \<and> \<not> rsUp r))"
    unfolding url_kind_breached by (auto simp: all_metrics_def)
  also have "\<dots> \<longleftrightarrow> (\<exists>r. smLastResult m = Some r \<and> \<not> rsUp r)"
    using m i summaries_ids(2) [OF assms(1)] by (metis option.inject)
  finally show ?thesis .
qed

text \<open>
  C3: the fast tick. When the engine agrees with the database, which serves, and the disks listed have distinct
  mount points, then after the tick, for every check in the registry's summaries, its alert is active exactly when its
  last probe was down; the alerts reported are the kinds that breach now and were not active; and the
  events posted to the broker are these alerts, then the metrics, then the tunnel, as far as its queue
  of 256 has room.
\<close>

theorem fast_tick_alerts:
  assumes "engine_exact (svEngine (psServer p), svWorld (psServer p))" and "checker_ok (svChecker (psServer p))"
    and "length (broadcast (svBroker (psServer p))) \<le> 256"
    and "fast_tick marshal fi p = Some p'"
    and "\<And>now. distinct (map dsMountpoint (syDisks (fst (metrics_Collect (fiConvert fi) (fiOrder fi) (fiReadings fi) now (psCollector p)))))"
  shows "\<exists>fired snap app net tun.
    ltSystem (svLatest (psServer p')) = Some snap \<and>
    (\<forall>i m. GetSummary i (svChecker (psServer p)) = Some m \<longrightarrow>
       (''url_down:'' @ format_int i \<in> dom (activeAlerts (svEngine (psServer p'))) \<longleftrightarrow> (\<exists>r. smLastResult m = Some r \<and> \<not> rsUp r))) \<and>
    distinct (map alKind fired) \<and>
    set (map alKind fired) = breached_kinds (thresholds (svEngine (psServer p)))
        (all_metrics snap (Summaries (fiOrder fi) (svChecker (psServer p)))) - dom (activeAlerts (svEngine (psServer p))) \<and>
    broadcast (svBroker (psServer p')) = take 256 (broadcast (svBroker (psServer p)) @
      posted_events marshal (map (\<lambda>a. (''alert'', AlertPayload a)) fired @
        [(''metrics'', MetricsPayload snap app net), (''tunnel'', TunnelPayload tun)]))"
proof -
  let ?s = "psServer p" and ?c = "svChecker (psServer p)"
  obtain snap col app net tun det w5 fired err e w6 where
    tick: "fast_tick marshal fi p = Some (p\<lparr>psServer := UpdateLatest
        (no_data\<lparr>ltSystem := Some snap, ltApp := Some app, ltNetwork := Some net, ltTunnel := Some tun\<rparr>)
        (?s\<lparr>svEngine := e, svBroker := BroadcastJSON marshal ''tunnel'' (TunnelPayload tun)
            (BroadcastJSON marshal ''metrics'' (MetricsPayload snap app net) (post_alerts marshal fired (svBroker ?s))),
          svWorld := w6\<rparr>), psCollector := col, psDetector := det\<rparr>)"
    and snap: "\<exists>now. metrics_Collect (fiConvert fi) (fiOrder fi) (fiReadings fi) now (psCollector p) = (snap, col)"
    and w5: "quiet (svWorld ?s) w5"
    and ev: "Evaluate (all_metrics snap (Summaries (fiOrder fi) ?c)) (svEngine ?s) w5 = ((fired, err), e, w6)"
    by (rule still.fast_tick_parts [of marshal fi p])
  let ?m = "all_metrics snap (Summaries (fiOrder fi) ?c)" and ?th = "thresholds (svEngine ?s)"
  have p': "svEngine (psServer p') = e" "ltSystem (svLatest (psServer p')) = Some snap"
    "svBroker (psServer p') = fold (\<lambda>(t, v). BroadcastJSON marshal t v)
       (map (\<lambda>a. (''alert'', AlertPayload a)) fired @ [(''metrics'', MetricsPayload snap app net), (''tunnel'', TunnelPayload tun)]) (svBroker ?s)"
    using tick assms(4) by (auto simp: UpdateLatest_def Let_def newer_def post_alerts_fold)
  have x: "engine_exact (svEngine ?s, w5)" using alert_exact.inv_steps [OF quiet_run [OF w5] assms(1)] .
  have d1: "distinct (map daMountpoint (mDisks ?m))"
  proof -
    obtain now where "metrics_Collect (fiConvert fi) (fiOrder fi) (fiReadings fi) now (psCollector p) = (snap, col)"
      using snap by blast
    with assms(5) [of now] show ?thesis by (simp add: all_metrics_def disk_alerts_def comp_def)
  qed
  have d2: "distinct (map uaID (mURLStats ?m))"
    using summaries_ids(1) [OF assms(2)] by (simp add: all_metrics_def comp_def)
  note E = evaluate_effect [OF x ev d1 d2]
  show ?thesis
    by (rule exI [of _ fired], rule exI [of _ snap], rule exI [of _ app], rule exI [of _ net], rule exI [of _ tun])
      (use p' url_alerts_exact [OF assms(2) _ E(4)] E(5,6) BroadcastJSON_all [OF assms(3)] in \<open>simp del: set_map map_append fold_append\<close>)
qed

definition down_check :: URLCheck where
  "down_check = \<lparr>ucID = 1, ucURL = ''u'', ucLabel = [], ucIntervalSeconds = 60, ucTimeoutSeconds = 10, ucEnabled = True,
     ucCreatedAt = 0\<rparr>"

definition down_summary :: Summary where
  "down_summary = \<lparr>smCheck = down_check, smLastResult = Some (failed_result down_check 0 ''e''), smUptimePct = Fin 0,
     smHistory = [failed_result down_check 0 ''e'']\<rparr>"

definition down_process :: process where
  "down_process = \<lparr>psServer = empty_server\<lparr>svChecker := NewChecker\<lparr>summaries := [(1, down_summary)]\<rparr>\<rparr>, psCollector = NewCollector,
     psDetector = NewDetector, psParser = newParser (\<lambda>_. False), psServices = [], psStartTime = 0\<rparr>"

definition quiet_input :: fast_input where
  "quiet_input = \<lparr>fiReadings = eth_readings, fiConvert = (\<lambda>_. 0), fiOrder = (\<lambda>_. 0), fiGoRoutines = 1,
     fiMemStats = \<lparr>msHeapAlloc = 0, msHeapSys = 0, msPauseTotalNs = 0, msNumGC = 0\<rparr>, fiProcess = None, fiConns = None,
     fiProcs = None, fiVersion = None\<rparr>"

lemma fast_tick_alerts_witness:
  "\<exists>p'. fast_tick (\<lambda>_. Some ''{}'') quiet_input down_process = Some p' \<and>
     ''url_down:1'' \<in> dom (activeAlerts (svEngine (psServer p')))"
proof -
  let ?s = "psServer down_process"
  have s: "svEngine ?s = NewEngine" "svWorld ?s = fresh_world 0" "broadcast (svBroker ?s) = []"
    "svChecker ?s = NewChecker\<lparr>summaries := [(1, down_summary)]\<rparr>"
    by (simp_all add: down_process_def empty_server_def NewBroker_def)
  obtain p' where p': "fast_tick (\<lambda>_. Some ''{}'') quiet_input down_process = Some p'"
    by (rule still.fast_tick_parts [of "\<lambda>_. Some ''{}''" quiet_input down_process]) blast
  have a: "engine_exact (svEngine ?s, svWorld ?s)"
    unfolding s by (rule alert_init_exact) (simp add: alert_init_def fresh_db_def fresh_world_def healthy_fresh [unfolded fresh_world_def])
  have b: "checker_ok (svChecker ?s)"
    unfolding s by (simp add: checker_ok_def NewChecker_def registry_ok_def summary_ok_def down_summary_def down_check_def failed_result_def keys_distinct_def)
  have c: "length (broadcast (svBroker ?s)) \<le> 256" by (simp add: s)
  have d: "distinct (map dsMountpoint (syDisks (fst (metrics_Collect (fiConvert quiet_input) (fiOrder quiet_input)
      (fiReadings quiet_input) now (psCollector down_process)))))" for now
    by (simp add: metrics_Collect_def read_cpu_memory_def quiet_input_def eth_readings_def empty_snapshot_def Let_def)
  have "format_int 1 = ''1''" by code_simp
  moreover have "GetSummary 1 (svChecker ?s) = Some down_summary" by (simp add: s GetSummary_def)
  moreover have "\<exists>r. smLastResult down_summary = Some r \<and> \<not> rsUp r" by (simp add: down_summary_def failed_result_def)
  ultimately have "''url_down:1'' \<in> dom (activeAlerts (svEngine (psServer p')))"
    using fast_tick_alerts [OF a b c p' d] by force
  with p' show ?thesis by blast
qed

end
