(* ===== verification/Server_Types.thy ===== *)
theory Server_Types
  imports Server_Props
begin

text \<open>
  The types of what is configured: the model keeps Go's 64-bit integers as \<open>int\<close> and its floats as
  \<open>float64\<close>; here every interval and timeout in the table of checks is shown to fit, and every threshold to be a
  finite number, in every state the process reaches.
\<close>

section \<open>Typed values\<close>

definition finite_number :: "float64 \<Rightarrow> bool" where
  "finite_number f \<longleftrightarrow> (case f of Fin _ \<Rightarrow> True | _ \<Rightarrow> False)"

definition typed_row :: "url_checks_row \<Rightarrow> bool" where
  "typed_row r \<longleftrightarrow> is_int64 (ur_interval_seconds r) \<and> is_int64 (ur_timeout_seconds r)"

definition typed_check :: "URLCheck \<Rightarrow> bool" where
  "typed_check u \<longleftrightarrow> is_int64 (ucIntervalSeconds u) \<and> is_int64 (ucTimeoutSeconds u)"

definition typed_db :: "db \<Rightarrow> bool" where
  "typed_db d \<longleftrightarrow> (\<forall>r \<in> set (checks_tbl d). typed_row r) \<and> (\<forall>kv \<in> set (thresholds_tbl d). finite_number (snd kv))"

definition typed_thresholds :: "(string \<rightharpoonup> float64) \<Rightarrow> bool" where
  "typed_thresholds th \<longleftrightarrow> (\<forall>k v. th k = Some v \<longrightarrow> finite_number v)"

definition typed_server :: "server \<Rightarrow> bool" where
  "typed_server s \<longleftrightarrow> typed_db (wdb (svWorld s)) \<and> typed_thresholds (thresholds (svEngine s))"

lemma finite_number_Fin [simp]: "finite_number (Fin q)"
  by (simp add: finite_number_def)

section \<open>Calls that leave the configuration alone\<close>

definition same_config :: "world \<Rightarrow> world \<Rightarrow> bool" where
  "same_config w w' \<longleftrightarrow> checks_tbl (wdb w') = checks_tbl (wdb w) \<and> thresholds_tbl (wdb w') = thresholds_tbl (wdb w)"

lemma same_config_refl: "same_config w w"
  by (simp add: same_config_def)

lemma same_config_trans: "same_config w w' \<Longrightarrow> same_config w' w'' \<Longrightarrow> same_config w w''"
  by (simp add: same_config_def)

lemma same_config_exec:
  assumes "\<And>r d. stmt (wdb w) = Inr (r, d) \<Longrightarrow>
    checks_tbl d = checks_tbl (wdb w) \<and> thresholds_tbl d = thresholds_tbl (wdb w)"
  shows "same_config w (snd (exec stmt w))"
  using exec_preserves [where P = "\<lambda>d. checks_tbl d = checks_tbl (wdb w) \<and> thresholds_tbl d = thresholds_tbl (wdb w)"] assms
  unfolding same_config_def by blast

lemma same_config_stores:
  "same_config w (snd (InsertURLResult r w))" "same_config w (snd (InsertSSHEvent e w))"
  "same_config w (snd (InsertTunnelEvent v w))" "same_config w (snd (InsertAlert a w))"
  "same_config w (snd (ResolveAlert i t w))" "same_config w (snd (AcknowledgeAlert i w))"
  unfolding InsertURLResult_def InsertSSHEvent_def InsertTunnelEvent_def InsertAlert_def ResolveAlert_def AcknowledgeAlert_def
  by (rule same_config_exec; auto simp: sql_insert_result_def sql_insert_ssh_def sql_insert_tunnel_def sql_insert_alert_def sql_resolve_alert_def sql_acknowledge_alert_def Let_def split: if_splits)+

lemma same_config_reads:
  "same_config w (snd (time_Now w))" "same_config w (snd (ActiveAlerts w))" "same_config w (snd (RecentAlerts n w))"
  "same_config w (snd (ListURLChecks w))" "same_config w (snd (GetURLCheck i w))"
  "same_config w (snd (URLResultHistory i n w))" "same_config w (snd (URLUptime i t w))"
  "same_config w (snd (RecentSSHEvents n w))" "same_config w (snd (FailedSSHByIP t w))"
  "same_config w (snd (RecentTunnelEvents n w))" "same_config w (snd (GetThresholds w))"
  by (simp_all add: same_config_def call_defs)

interpretation conf: call_frame same_config
  by unfold_locales (auto intro: same_config_refl same_config_trans same_config_stores same_config_reads)

section \<open>Calls that change the configuration\<close>

lemma same_config_typed: "same_config w w' \<Longrightarrow> typed_db (wdb w) \<Longrightarrow> typed_db (wdb w')"
  by (simp add: same_config_def typed_db_def)

lemma typed_exec:
  assumes "\<And>r d. stmt (wdb w) = Inr (r, d) \<Longrightarrow> typed_db d" and "typed_db (wdb w)" and "exec stmt w = (x, w')"
  shows "typed_db (wdb w')"
  using exec_preserves [where P = typed_db and stmt = stmt and w = w] assms by (metis snd_conv)

lemma InsertURLCheck_typed:
  "InsertURLCheck u w = (r, w') \<Longrightarrow> typed_check u \<Longrightarrow> typed_db (wdb w) \<Longrightarrow> typed_db (wdb w')"
  unfolding InsertURLCheck_def
  by (erule typed_exec [rotated 2])
    (auto simp: sql_insert_check_def Let_def typed_db_def typed_row_def typed_check_def split: if_splits)

lemma UpdateURLCheck_typed:
  "UpdateURLCheck u w = (r, w') \<Longrightarrow> typed_check u \<Longrightarrow> typed_db (wdb w) \<Longrightarrow> typed_db (wdb w')"
  unfolding UpdateURLCheck_def
  by (erule typed_exec [rotated 2])
    (auto simp: sql_update_check_def set_check_row_def typed_db_def typed_row_def typed_check_def split: if_splits)

lemma DeleteURLCheck_typed: "DeleteURLCheck i w = (r, w') \<Longrightarrow> typed_db (wdb w) \<Longrightarrow> typed_db (wdb w')"
  unfolding DeleteURLCheck_def
  by (erule typed_exec [rotated 2]) (auto simp: sql_delete_check_def typed_db_def)

lemma set_AList_update: "set (AList.update k v m) \<subseteq> insert (k, v) (set m)"
  by (induction m) auto

lemma SetThreshold_typed:
  "SetThreshold k v w = (r, w') \<Longrightarrow> finite_number v \<Longrightarrow> typed_db (wdb w) \<Longrightarrow> typed_db (wdb w')"
  unfolding SetThreshold_def
  by (erule typed_exec [rotated 2])
    (use set_AList_update in \<open>fastforce simp: sql_set_threshold_def typed_db_def split: if_splits\<close>)+

lemma purge_stmt_typed: "st \<in> set (purge_stmts n) \<Longrightarrow> typed_db d \<Longrightarrow> st d = Inr (u, d') \<Longrightarrow> typed_db d'"
  unfolding purge_stmts_def purge_results_def purge_ssh_def purge_tunnel_def purge_alerts_def typed_db_def by fastforce

lemma Purge_typed: "typed_db (wdb w) \<Longrightarrow> typed_db (wdb (snd (Purge w)))"
proof -
  assume t: "typed_db (wdb w)"
  obtain n w1 where now: "time_Now w = (n, w1)" by (cases "time_Now w")
  have "typed_db (wdb w1)" using t same_config_typed [OF conf.call_frames(1) [OF now]] by simp
  then have "typed_db (wdb (snd (exec_all (purge_stmts (Unix n)) w1)))"
    by (intro exec_all_preserves [where P = typed_db]) (auto dest: purge_stmt_typed)
  with now show ?thesis by (simp add: Purge_def)
qed

lemma query_rows: "query sel scan w = ((rs, err), w') \<Longrightarrow> \<exists>rank. set rs \<subseteq> scan ` set (sel rank (wdb w))"
  by (fastforce simp: query_def Let_def dest: in_set_takeD split: verdict.splits option.splits)

lemma GetURLCheck_typed: "GetURLCheck i w = (Inr u, w') \<Longrightarrow> typed_db (wdb w) \<Longrightarrow> typed_check u"
proof -
  assume g: "GetURLCheck i w = (Inr u, w')" and t: "typed_db (wdb w)"
  then obtain rs err where "query (sql_get_check i) scan_check w = ((u # rs, err), w')"
    by (auto simp: GetURLCheck_def query_row_def split: prod.splits list.splits option.splits)
  from query_rows [OF this] obtain rank where "u \<in> scan_check ` set (sql_get_check i rank (wdb w))" by auto
  then show ?thesis using t by (auto simp: typed_db_def typed_row_def typed_check_def scan_check_def sql_get_check_def)
qed

section \<open>The engine\<close>

lemma run_checks_config:
  "run_checks InsertAlert ResolveAlert time_Now cs active w = (fired, err, active', w') \<Longrightarrow> same_config w w'"
proof (induction cs arbitrary: active w fired)
  case (Cons c cs)
  obtain t w1 where now: "time_Now w = (t, w1)" by (cases "time_Now w")
  note w1 = same_config_trans [OF conf.call_frames(1) [OF now]]
  show ?case
  proof (cases rule: check_cases [of c active])
    case idle
    with Cons show ?thesis by (metis run_checks_idle)
  next
    case fire
    obtain r w2 where r: "InsertAlert (alert_of c t) w1 = (r, w2)" by (cases "InsertAlert (alert_of c t) w1")
    have "same_config w w2" using w1 same_config_stores(4) [of w1 "alert_of c t"] r by simp
    with Cons.IH Cons.prems [unfolded run_checks_fire [where active = active and now = time_Now, OF fire now] r] show ?thesis
      by (cases r) (auto intro: same_config_trans split: prod.splits)
  next
    case (resolve i)
    have "same_config w (snd (ResolveAlert i t w1))" using w1 same_config_stores(5) by blast
    with Cons.IH Cons.prems [unfolded run_checks_resolve [where active = active and now = time_Now, OF resolve now]] show ?thesis
      by (metis same_config_trans)
  qed
qed (simp add: same_config_refl)

lemma Evaluate_config: "Evaluate m e w = (r, e', w') \<Longrightarrow> same_config w w' \<and> thresholds e' = thresholds e"
  by (auto simp: Evaluate_def dest: run_checks_config split: prod.splits)

lemma UpdateThreshold_typed:
  "UpdateThreshold k v e w = (r, e', w') \<Longrightarrow> finite_number v \<Longrightarrow> typed_db (wdb w) \<Longrightarrow> typed_thresholds (thresholds e) \<Longrightarrow>
   typed_db (wdb w') \<and> typed_thresholds (thresholds e')"
  by (auto simp: UpdateThreshold_def typed_thresholds_def dest: SetThreshold_typed split: prod.splits sum.splits if_splits)

lemma put_thresholds_typed:
  "put_thresholds kvs e w = (r, e', w') \<Longrightarrow> \<forall>kv \<in> set kvs. finite_number (snd kv) \<Longrightarrow> typed_db (wdb w) \<Longrightarrow>
   typed_thresholds (thresholds e) \<Longrightarrow> typed_db (wdb w') \<and> typed_thresholds (thresholds e')"
proof (induction kvs arbitrary: e w)
  case (Cons kv kvs)
  obtain k v where kv: "kv = (k, v)" by (cases kv)
  obtain x e1 w1 where u: "UpdateThreshold k v e w = (x, e1, w1)" by (metis prod.collapse)
  have "typed_db (wdb w1) \<and> typed_thresholds (thresholds e1)"
    using UpdateThreshold_typed [OF u] Cons.prems kv by simp
  with Cons u kv show ?case by (cases x) auto
qed simp

section \<open>Decoded requests\<close>

definition typed_create :: "create_request \<Rightarrow> bool" where
  "typed_create r \<longleftrightarrow> is_int64 (crIntervalSeconds r) \<and> is_int64 (crTimeoutSeconds r)"

definition typed_update :: "update_request \<Rightarrow> bool" where
  "typed_update r \<longleftrightarrow> (\<forall>i. upIntervalSeconds r = Some i \<or> upTimeoutSeconds r = Some i \<longrightarrow> is_int64 i)"

lemma dec_members_keeps:
  assumes "\<And>k v r r'. store k v r = Some r' \<Longrightarrow> P r \<Longrightarrow> P r'" and "dec_members store kvs r = Some r'" and "P r"
  shows "P r'"
  using assms(2,3)
proof (induction kvs arbitrary: r)
  case (Cons kv kvs)
  then obtain q where "store (fold_name (fst kv)) (snd kv) r = Some q" "dec_members store kvs q = Some r'"
    by (cases kv) (auto split: option.splits)
  with Cons assms(1) show ?case by blast
qed simp

lemma dec_struct_keeps:
  assumes "dec_struct store v r = Some r'" and "P r" and "\<And>k v r r'. store k v r = Some r' \<Longrightarrow> P r \<Longrightarrow> P r'"
  shows "P r'"
  using assms(1,2) dec_members_keeps [where P = P and store = store, OF assms(3)] by (cases v) auto

lemma create_member_typed: "create_member k v r = Some r' \<Longrightarrow> typed_create r \<Longrightarrow> typed_create r'"
  by (auto simp: create_member_def typed_create_def dest: dec_int_range split: if_splits)

lemma decode_create_typed: "decode_create b = Some r \<Longrightarrow> typed_create r"
  unfolding decode_create_def
  by (auto split: option.splits intro: create_member_typed elim!: dec_struct_keeps)
    (simp add: typed_create_def is_int64_def)

lemma dec_ptr_int64:
  "dec_ptr dec_int 0 v p = Some q \<Longrightarrow> \<forall>i. p = Some i \<longrightarrow> is_int64 i \<Longrightarrow> q = Some j \<Longrightarrow> is_int64 j"
proof -
  have "is_int64 0" by (simp add: is_int64_def)
  then show "dec_ptr dec_int 0 v p = Some q \<Longrightarrow> \<forall>i. p = Some i \<longrightarrow> is_int64 i \<Longrightarrow> q = Some j \<Longrightarrow> is_int64 j"
    by (auto simp: dec_ptr_def dest: dec_int_range split: if_splits option.splits)
qed

lemma update_member_typed: "update_member k v r = Some r' \<Longrightarrow> typed_update r \<Longrightarrow> typed_update r'"
  by (auto simp: update_member_def typed_update_def dest: dec_ptr_int64 split: if_splits)

lemma decode_update_typed: "decode_update b = Some r \<Longrightarrow> typed_update r"
  unfolding decode_update_def
  by (auto split: option.splits intro: update_member_typed elim!: dec_struct_keeps)
    (simp add: typed_update_def)

lemma new_check_typed: "typed_create r \<Longrightarrow> typed_check (new_check r now)"
  by (auto simp: typed_create_def typed_check_def new_check_def is_int64_def)

lemma apply_update_typed: "typed_update r \<Longrightarrow> typed_check u \<Longrightarrow> typed_check (apply_update r u)"
  by (auto simp: typed_update_def typed_check_def apply_update_def or_else_def split: option.split)

section \<open>Requests\<close>

lemma Add_typed: "Add ctx ch c w = (r, c', w') \<Longrightarrow> typed_check ch \<Longrightarrow> typed_db (wdb w) \<Longrightarrow> typed_db (wdb w')"
  by (auto simp: Add_def Let_def dest: InsertURLCheck_typed split: prod.splits sum.splits)

lemma Update_typed: "Update ctx ch c w = Some (r, c', w') \<Longrightarrow> typed_check ch \<Longrightarrow> typed_db (wdb w) \<Longrightarrow> typed_db (wdb w')"
  by (auto simp: Update_def dest: UpdateURLCheck_typed split: prod.splits sum.splits option.splits)

lemma Remove_typed: "Remove i c w = Some (r, c', w') \<Longrightarrow> typed_db (wdb w) \<Longrightarrow> typed_db (wdb w')"
  by (auto simp: Remove_def dest: DeleteURLCheck_typed split: prod.splits sum.splits option.splits)

text \<open>Calls that only read, for a call whose result is known.\<close>

lemma typed_reads:
  "time_Now w = (t, w') \<Longrightarrow> typed_db (wdb w) \<Longrightarrow> typed_db (wdb w')"
  "ActiveAlerts w = (ra, w') \<Longrightarrow> typed_db (wdb w) \<Longrightarrow> typed_db (wdb w')"
  "RecentAlerts n w = (ra, w') \<Longrightarrow> typed_db (wdb w) \<Longrightarrow> typed_db (wdb w')"
  "GetURLCheck i w = (rg, w') \<Longrightarrow> typed_db (wdb w) \<Longrightarrow> typed_db (wdb w')"
  "URLResultHistory i n w = (rh, w') \<Longrightarrow> typed_db (wdb w) \<Longrightarrow> typed_db (wdb w')"
  "AcknowledgeAlert i w = (ru, w') \<Longrightarrow> typed_db (wdb w) \<Longrightarrow> typed_db (wdb w')"
  "ListURLChecks w = (rl, w') \<Longrightarrow> typed_db (wdb w) \<Longrightarrow> typed_db (wdb w')"
  "GetThresholds w = (rt, w') \<Longrightarrow> typed_db (wdb w) \<Longrightarrow> typed_db (wdb w')"
  by (metis same_config_reads same_config_stores same_config_typed snd_conv)+

lemma createURLCheck_typed: "createURLCheck rq s = Some (out, s') \<Longrightarrow> typed_server s \<Longrightarrow> typed_server s'"
  by (auto simp: createURLCheck_def write_defs typed_server_def dest!: decode_create_typed
      dest: Add_typed [OF _ new_check_typed] typed_reads(1) split: if_splits prod.splits option.splits)

lemma updateURLCheck_typed: "updateURLCheck i rq s = Some (out, s') \<Longrightarrow> typed_server s \<Longrightarrow> typed_server s'"
  by (auto simp: updateURLCheck_def write_defs typed_server_def dest!: decode_update_typed
      dest: Update_typed [OF _ apply_update_typed] GetURLCheck_typed typed_reads(4) split: prod.splits option.splits sum.splits)

lemma check_typed: "HandleURLCheckByID i rq s = Some (out, s') \<Longrightarrow> typed_server s \<Longrightarrow> typed_server s'"
  by (cases "rqMethod rq = ''PUT''")
    (auto simp: HandleURLCheckByID_def write_defs dest: updateURLCheck_typed Remove_typed split: if_splits prod.splits option.splits
      simp: typed_server_def)

lemma thresholds_typed: "HandleThresholds rq s = Some (out, s') \<Longrightarrow> typed_server s \<Longrightarrow> typed_server s'"
proof -
  have fin: "\<forall>kv \<in> set (visit rank m). finite_number (snd kv)" if "dec_float_map v = Some m" for v m rank
    using dec_float_map_finite [OF that] by force
  show "HandleThresholds rq s = Some (out, s') \<Longrightarrow> typed_server s \<Longrightarrow> typed_server s'"
    by (auto simp: HandleThresholds_def write_defs typed_server_def
        dest: put_thresholds_typed [OF _ fin] split: if_splits prod.splits option.splits bind_splits)
qed

lemma readers_typed:
  "HandleMetrics rq s = Some (out, s') \<Longrightarrow> typed_server s \<Longrightarrow> typed_server s'"
  "HandleServices rq s = Some (out, s') \<Longrightarrow> typed_server s \<Longrightarrow> typed_server s'"
  "HandleSecurity rq s = Some (out, s') \<Longrightarrow> typed_server s \<Longrightarrow> typed_server s'"
  "HandleTunnel rq s = Some (out, s') \<Longrightarrow> typed_server s \<Longrightarrow> typed_server s'"
  "HandleEvents rq s = Some (out, s') \<Longrightarrow> typed_server s \<Longrightarrow> typed_server s'"
  "HandleURLHistory i rq s = Some (out, s') \<Longrightarrow> typed_server s \<Longrightarrow> typed_server s'"
  "HandleAlerts rq s = Some (out, s') \<Longrightarrow> typed_server s \<Longrightarrow> typed_server s'"
  "HandleAcknowledgeAlert i rq s = Some (out, s') \<Longrightarrow> typed_server s \<Longrightarrow> typed_server s'"
  "listURLChecks rq s = Some (out, s') \<Longrightarrow> typed_server s \<Longrightarrow> typed_server s'"
  by (auto simp: HandleMetrics_def HandleServices_def HandleSecurity_def HandleTunnel_def HandleEvents_def serve_start_def
      HandleURLHistory_def HandleAlerts_def HandleAcknowledgeAlert_def listURLChecks_def Let_def write_defs typed_server_def
      dest: typed_reads(2,3,5,6) split: if_splits prod.splits option.splits sum.splits)

lemma checks_typed: "HandleURLChecks rq s = Some (out, s') \<Longrightarrow> typed_server s \<Longrightarrow> typed_server s'"
  by (auto simp: HandleURLChecks_def method_not_allowed_def writeError_def writeJSON_def
      dest: createURLCheck_typed readers_typed(9) split: if_splits)

lemma handler_typed: "handler ep rq s = Some (out, s') \<Longrightarrow> typed_server s \<Longrightarrow> typed_server s'"
  by (cases ep) (auto dest: readers_typed checks_typed check_typed thresholds_typed)

lemma logging_typed:
  assumes "withLogging (handler ep) rq s = Some (out, s')" and "typed_server s"
  shows "typed_server s'"
proof -
  obtain t w where t: "time_Now (svWorld s) = (t, w)" by (cases "time_Now (svWorld s)")
  obtain o2 s2 where h: "handler ep rq (s\<lparr>svWorld := w\<rparr>) = Some (o2, s2)"
    using assms(1) t by (auto simp: withLogging_def split: option.splits)
  have "typed_server (s\<lparr>svWorld := w\<rparr>)" using assms(2) typed_reads(1) [OF t] by (simp add: typed_server_def)
  from handler_typed [OF h this] have "typed_server s2" .
  then show ?thesis
    using assms(1) t h by (auto simp: withLogging_def typed_server_def dest: typed_reads(1) split: outcome.splits prod.splits)
qed

lemma serve_typed:
  assumes "serve assets compare cfg rq s = Some (out, s')" and "typed_server s"
  shows "typed_server s'"
proof (cases "route (rqMethod rq) (rqPath rq) = AssetsEP")
  case True
  with assms show ?thesis by (simp add: serve_def)
next
  case False
  with assms logging_typed show ?thesis by (auto simp: serve_api [OF refl False] split: if_splits)
qed

section \<open>The process\<close>

lemma fast_tick_typed:
  assumes "fast_tick marshal fi p = Some p'" and "typed_server (psServer p)"
  shows "typed_server (psServer p')"
proof -
  obtain snap col app net tun det w5 fired err e w6 where
    tick: "fast_tick marshal fi p = Some (p\<lparr>psServer := UpdateLatest
        (no_data\<lparr>ltSystem := Some snap, ltApp := Some app, ltNetwork := Some net, ltTunnel := Some tun\<rparr>)
        ((psServer p)\<lparr>svEngine := e, svBroker := BroadcastJSON marshal ''tunnel'' (TunnelPayload tun)
            (BroadcastJSON marshal ''metrics'' (MetricsPayload snap app net) (post_alerts marshal fired (svBroker (psServer p)))),
          svWorld := w6\<rparr>), psCollector := col, psDetector := det\<rparr>)"
    and w5: "same_config (svWorld (psServer p)) w5"
    and ev: "Evaluate (all_metrics snap (Summaries (fiOrder fi) (svChecker (psServer p)))) (svEngine (psServer p)) w5 =
      ((fired, err), e, w6)"
    by (rule conf.fast_tick_parts [of marshal fi p])
  have "same_config (svWorld (psServer p)) w6" using same_config_trans [OF w5] Evaluate_config [OF ev] by blast
  then have "typed_db (wdb w6)" using assms(2) same_config_typed by (auto simp: typed_server_def)
  moreover have "svWorld (psServer p') = w6" "svEngine (psServer p') = e" using tick assms(1) by auto
  ultimately show ?thesis using Evaluate_config [OF ev] assms(2) by (simp add: typed_server_def)
qed

lemma server_step_typed:
  "server_step assets compare cfg marshal p p' \<Longrightarrow> typed_server (psServer p) \<Longrightarrow> typed_server (psServer p')"
proof (induction rule: server_step.induct)
  case (sv_slow p si)
  have "svEngine (psServer (slow_tick marshal si p)) = svEngine (psServer p)"
    by (simp add: slow_tick_def Let_def split: prod.split)
  then show ?case using sv_slow same_config_typed [OF conf.slow_tick_frame] by (simp add: typed_server_def)
next
  case (sv_worker n p cancelled q c w)
  then show ?case using same_config_typed [OF conf.worker_frame] by (auto simp: typed_server_def)
next
  case (sv_request rq p out s)
  then show ?case by (simp add: serve_typed)
next
  case (sv_fast fi p p')
  then show ?case by (rule fast_tick_typed)
qed (auto simp: purge_tick_def typed_server_def relay_frame Purge_typed)

lemma seed_typed: "\<forall>kv \<in> set t. finite_number (snd kv) \<Longrightarrow> \<forall>kv \<in> set (seed_thresholds t). finite_number (snd kv)"
proof -
  have f: "\<forall>kv \<in> set (fold insert_or_ignore ds t). finite_number (snd kv)"
    if "\<forall>kv \<in> set t. finite_number (snd kv)" "\<forall>kv \<in> set ds. finite_number (snd kv)" for ds t
    using that
  proof (induction ds arbitrary: t)
    case (Cons d ds)
    then have "\<forall>kv \<in> set (insert_or_ignore d t). finite_number (snd kv)" by (simp add: insert_or_ignore_def)
    with Cons show ?case by simp
  qed simp
  show "\<forall>kv \<in> set t. finite_number (snd kv) \<Longrightarrow> ?thesis"
    unfolding seed_thresholds_def by (erule f) (simp add: default_thresholds_def)
qed

lemma storage_Open_typed: "storage_Open path w = (r, w') \<Longrightarrow> typed_db (wdb w) \<Longrightarrow> typed_db (wdb w')"
proof -
  have open1: "typed_db (wdb w1)" if "exec (\<lambda>d. Inr (dsn path, d)) w = (x, w1)" "typed_db (wdb w)" for x w1
    by (rule typed_exec [OF _ that(2,1)]) (use that(2) in auto)
  have migr: "typed_db (wdb w2)" if "migrate w1 = (x, w2)" "typed_db (wdb w1)" for x w1 w2
    by (rule typed_exec [OF _ that(2) that(1) [unfolded migrate_def]]) (use that(2) seed_typed in \<open>auto simp: typed_db_def\<close>)
  show "storage_Open path w = (r, w') \<Longrightarrow> typed_db (wdb w) \<Longrightarrow> typed_db (wdb w')"
    by (auto simp: storage_Open_def dest: open1 migr split: prod.splits sum.splits)
qed

lemma GetThresholds_finite: "GetThresholds w = ((t, err), w') \<Longrightarrow> typed_db (wdb w) \<Longrightarrow> typed_thresholds t"
  by (fastforce simp: GetThresholds_def typed_thresholds_def typed_db_def dest: query_rows map_of_SomeD split: prod.splits)

lemma LoadThresholds_typed:
  assumes "LoadThresholds NewEngine w = (err, e, w')" and "typed_db (wdb w)"
  shows "typed_db (wdb w') \<and> typed_thresholds (thresholds e)"
proof -
  obtain t x w1 where g: "GetThresholds w = ((t, x), w1)" by (metis prod.collapse)
  note g' = typed_reads(8) [OF g assms(2)] GetThresholds_finite [OF g assms(2)]
  have "typed_thresholds (thresholds NewEngine)" by (simp add: typed_thresholds_def NewEngine_def)
  with assms(1) g g' typed_reads(2) show ?thesis
    by (auto simp: LoadThresholds_def Let_def split: option.splits prod.splits)
qed

lemma start_typed:
  assumes "main_start gen mkdir stat_ok args t w = Inr (cfg, p)" and "typed_db (wdb w)"
  shows "typed_server (psServer p)"
proof -
  obtain w1 err e w2 x c w3 where s: "storage_Open (cfDataDir cfg @ ''/monitor.db'') w = (Inr (), w1)"
    "LoadThresholds NewEngine w1 = (err, e, w2)" "Start 0 NewChecker w2 = (x, c, w3)"
    "svEngine (psServer p) = e" "svWorld (psServer p) = w3"
    using assms(1) by (auto simp: main_start_def split: sum.splits prod.splits)
  have "typed_db (wdb w1)" using storage_Open_typed [OF s(1) assms(2)] .
  with LoadThresholds_typed [OF s(2)] have "typed_db (wdb w2)" "typed_thresholds (thresholds e)" by simp_all
  then show ?thesis using s(3-5) typed_reads(7)
    by (auto simp: typed_server_def Start_def split: prod.splits option.splits)
qed

text \<open>
  C40: types. Started on any database whose intervals and timeouts are 64-bit integers and whose thresholds are
  finite, and after any sequence of requests with any bodies, ticks, purges and steps of check goroutines: every
  interval and timeout in the table of checks still is a 64-bit integer, every threshold in the table and in
  the engine a finite number. So the column read back into an \<open>int\<close> never overflows, no comparison with a threshold meets
  a NaN, and JSON can encode the thresholds.
\<close>

theorem configuration_typed:
  assumes "typed_db (wdb w)" and "main_start gen mkdir stat_ok args t w = Inr (cfg, p0)"
    and "(server_step assets compare cfg marshal)\<^sup>*\<^sup>* p0 p"
  shows "(\<forall>r \<in> set (checks_tbl (wdb (svWorld (psServer p)))). is_int64 (ur_interval_seconds r) \<and> is_int64 (ur_timeout_seconds r)) \<and>
    (\<forall>(k, v) \<in> set (thresholds_tbl (wdb (svWorld (psServer p)))). \<exists>q. v = Fin q) \<and>
    (\<forall>k v. engine_GetThresholds (svEngine (psServer p)) k = Some v \<longrightarrow> (\<exists>q. v = Fin q))"
proof -
  have fin: "\<exists>q. v = Fin q" if "finite_number v" for v using that by (cases v) (simp_all add: finite_number_def)
  have "typed_server (psServer p)"
    using assms(3) start_typed [OF assms(2,1)] by (induction rule: rtranclp_induct) (auto intro: server_step_typed)
  then show ?thesis
    by (fastforce simp: typed_server_def typed_db_def typed_row_def typed_thresholds_def engine_GetThresholds_def intro: fin)
qed

text \<open>One request to the process started on an empty directory: a check with the largest interval.\<close>

definition long_request :: request where
  "long_request = post_request\<lparr>rqBody := Some (JObject [(''url'', JString ''u''), (''interval_seconds'', JInt (2 ^ 63 - 1))])\<rparr>"

lemma configuration_typed_witness:
  "\<exists>cfg p0 out s. main_start Inr (\<lambda>_. None) (\<lambda>_. True) [] 0 (fresh_world 0) = Inr (cfg, p0) \<and>
     serve (\<lambda>_. unauthorized) (=) cfg long_request (psServer p0) = Some (out, s) \<and>
     (\<forall>r \<in> set (checks_tbl (wdb (svWorld s))). is_int64 (ur_interval_seconds r) \<and> is_int64 (ur_timeout_seconds r))"
proof -
  obtain cfg p0 where p0: "main_start Inr (\<lambda>_. None) (\<lambda>_. True) [] 0 (fresh_world 0) = Inr (cfg, p0)" using start_fresh by blast
  have "checker_ok (svChecker (psServer p0))" using start_parts [OF p0] by blast
  then obtain out s where r: "serve (\<lambda>_. unauthorized) (=) cfg long_request (psServer p0) = Some (out, s)"
    using serve_keeps unfolding keeps_checker_def by blast
  have t: "typed_db (wdb (fresh_world 0))" by (simp add: fresh_world_def typed_db_def empty_db_def)
  have step: "(server_step (\<lambda>_. unauthorized) (=) cfg (\<lambda>_. None))\<^sup>*\<^sup>* p0 (p0\<lparr>psServer := s\<rparr>)"
    using sv_request [OF r] by (rule r_into_rtranclp)
  from configuration_typed [OF t p0 step] p0 r show ?thesis by fastforce
qed

end
