(* ===== verification/Urlcheck_Props.thy ===== *)
theory Urlcheck_Props
  imports Urlcheck_Sys
begin

text \<open>
  What holds of the checker: no panic and a bounded cache in every interleaving, one goroutine
  per check as long as calls do not overlap, what one probe stores, and what the code does
  when calls overlap or a request's context ends.
\<close>

section \<open>Driving the system\<close>

text \<open>Deterministic steps of the system, to reach concrete states.\<close>

datatype event = ArriveAdd URLCheck | ArriveUpdate URLCheck | ArriveRemove int | Advance nat | Respond nat

definition arrive :: "call \<Rightarrow> checker_system \<Rightarrow> checker_system" where
  "arrive k s = s\<lparr>skCalls := skCalls s @ [k], skContexts := skContexts s + 1\<rparr>"

fun drive1 :: "event \<Rightarrow> checker_system \<Rightarrow> checker_system option" where
  "drive1 (ArriveAdd ch) s = Some (arrive (AddInsert (skContexts s) ch) s)"
| "drive1 (ArriveUpdate ch) s = Some (arrive (UpdateRow (skContexts s) ch) s)"
| "drive1 (ArriveRemove i) s = Some (arrive (RemoveStop (skContexts s) i) s)"
| "drive1 (Advance n) s =
     (if n < length (skCalls s) then
        (case call_step (skCalls s ! n) (skChecker s) (skWorld s) of
           None \<Rightarrow> None
         | Some (k, c, w) \<Rightarrow> Some (s\<lparr>skCalls := (skCalls s)[n := k], skChecker := c, skWorld := w\<rparr>))
      else None)"
| "drive1 (Respond n) s =
     (if n < length (skCalls s) then
        (case skCalls s ! n of
           Returned ctx \<Rightarrow> Some (s\<lparr>skCalls := take n (skCalls s) @ drop (Suc n) (skCalls s),
                                  skCancelled := insert ctx (skCancelled s)\<rparr>)
         | _ \<Rightarrow> None)
      else None)"

fun drive :: "event list \<Rightarrow> checker_system \<Rightarrow> checker_system option" where
  "drive [] s = Some s"
| "drive (e # es) s = (case drive1 e s of None \<Rightarrow> None | Some s' \<Rightarrow> drive es s')"

lemma arrive_step:
  "k \<in> {AddInsert (skContexts s) ch, UpdateRow (skContexts s) ch, RemoveStop (skContexts s) i} \<Longrightarrow> ck_step s (arrive k s)"
  unfolding arrive_def by (rule ck_request)

lemma drive1_step: "drive1 e s = Some t \<Longrightarrow> ck_step s t"
  by (cases "(e, s)" rule: drive1.cases)
    (auto split: if_splits option.splits call.splits intro: arrive_step ck_call ck_respond)

lemma drive_reach: "drive es s = Some t \<Longrightarrow> reach ck_init ck_step s \<Longrightarrow> reach ck_init ck_step t"
proof (induction es arbitrary: s)
  case (Cons e es)
  then obtain s' where "drive1 e s = Some s'" and t: "drive es s' = Some t" by (auto split: option.splits)
  then have "reach ck_init ck_step s'" by (intro reach_step [OF Cons.prems(2)] drive1_step)
  with t Cons.IH show ?case by blast
qed simp

definition fresh_system :: checker_system where
  "fresh_system = \<lparr>skChecker = NewChecker, skWorld = fresh_world 0, skCalls = [], skContexts = 1, skCancelled = {}\<rparr>"

lemma reach_fresh: "reach ck_init ck_step fresh_system"
  by (rule reach_init) (simp add: fresh_system_def ck_init_def fresh_db_def fresh_world_def)

definition the_check :: URLCheck where
  "the_check = \<lparr>ucID = 0, ucURL = ''u'', ucLabel = [], ucIntervalSeconds = 60, ucTimeoutSeconds = 10,
     ucEnabled = True, ucCreatedAt = 0\<rparr>"

definition added :: checker_system where
  "added = the (drive [ArriveAdd the_check, Advance 0, Advance 0, Advance 0, Respond 0] fresh_system)"

lemmas drive_simps = arrive_def fresh_system_def NewChecker_def the_check_def InsertURLCheck_def
  UpdateURLCheck_def DeleteURLCheck_def exec_def sql_insert_check_def sql_update_check_def
  sql_delete_check_def set_check_row_def start_or_return_def startCheck_def stopCheck_def
  new_summary_def update_summary_def delete_summary_def fresh_world_def empty_db_def int_of_bool_def

lemma added_eq:
  "drive [ArriveAdd the_check, Advance 0, Advance 0, Advance 0, Respond 0] fresh_system = Some added"
  by (simp add: added_def drive_simps Let_def)

lemma reach_added: "reach ck_init ck_step added"
  by (rule drive_reach [OF added_eq reach_fresh])

lemma added_state:
  "added = \<lparr>skChecker = \<lparr>checks = [(1, \<lparr>csCheck = the_check\<lparr>ucID := 1\<rparr>, csStop = 0\<rparr>)],
     summaries = [(1, \<lparr>smCheck = the_check\<lparr>ucID := 1\<rparr>, smLastResult = None, smUptimePct = Fin 0, smHistory = []\<rparr>)],
     ResultCh = [], made = 1, closed = [],
     workers = [\<lparr>wkCtx = 1, wkState = \<lparr>csCheck = the_check\<lparr>ucID := 1\<rparr>, csStop = 0\<rparr>, wkPhase = Checking\<rparr>]\<rparr>,
   skWorld = (fresh_world 0)\<lparr>wdb := empty_db\<lparr>checks_seq := 1, checks_tbl := [\<lparr>ur_id = 1, ur_url = ''u'',
     ur_label = [], ur_interval_seconds = 60, ur_timeout_seconds = 10, ur_enabled = 1, ur_created_at = Unix 0\<rparr>]\<rparr>\<rparr>,
   skCalls = [], skContexts = 2, skCancelled = {1}\<rparr>"
  by (simp add: added_def drive_simps Let_def)

section \<open>Every interleaving\<close>

text \<open>
  C5: in every interleaving of requests, goroutines, the relay, shutdown and other database
  traffic, no call panics: the stop channel that a section closes is registered and open, and
  leaves the registry in the same section.
\<close>

theorem calls_never_panic:
  assumes "reach ck_init ck_step s"
  shows "call_step k (skChecker s) (skWorld s) \<noteq> None \<and>
    Update ctx ch (skChecker s) (skWorld s) \<noteq> None \<and> Remove i (skChecker s) (skWorld s) \<noteq> None"
proof -
  have ok: "checker_ok (skChecker s)" using ck_sys.inv_reach [OF assms] by (simp add: ck_inv_def)
  show ?thesis
    using call_step_ok [OF ok, of k "skWorld s"] stopCheck_ok [OF ok, of "ucID ch"] stopCheck_ok [OF ok, of i]
    by (auto simp: Update_def Remove_def split: prod.split sum.split)
qed

lemma calls_never_panic_witness: "Remove 1 (skChecker added) (skWorld added) \<noteq> None"
  using calls_never_panic [OF reach_added] by blast

text \<open>
  C22: the cache in every interleaving: a summary holds at most 20 results, all of its own
  check, the last result is the newest of them, and at most 64 results wait for the relay.
\<close>

theorem summaries_bounded:
  assumes "reach ck_init ck_step s" and "GetSummary i (skChecker s) = Some m"
  shows "ucID (smCheck m) = i \<and> length (smHistory m) \<le> 20 \<and> (\<forall>r \<in> set (smHistory m). rsCheckID r = i) \<and>
    smLastResult m = (case smHistory m of [] \<Rightarrow> None | r # rs \<Rightarrow> Some r) \<and> length (ResultCh (skChecker s)) \<le> 64"
  using ck_sys.inv_reach [OF assms(1)] assms(2)
  by (auto simp: ck_inv_def checker_ok_def summary_ok_def GetSummary_def)

lemma summaries_bounded_witness: "\<exists>m. GetSummary 1 (skChecker added) = Some m \<and> length (smHistory m) \<le> 20"
proof -
  obtain m where m: "GetSummary 1 (skChecker added) = Some m" by (simp add: added_state GetSummary_def)
  with summaries_bounded [OF reach_added m] show ?thesis by blast
qed

section \<open>Overlapping calls\<close>

text \<open>A goroutine whose stop channel is open and no longer registered is out of reach for ever.\<close>

definition orphan :: "nat \<Rightarrow> Checker \<Rightarrow> bool" where
  "orphan n c \<longleftrightarrow> n < made c \<and> n \<notin> set (closed c) \<and> (\<forall>i st. map_of (checks c) i = Some st \<longrightarrow> csStop st \<noteq> n)"

lemma orphan_start: "orphan n c \<Longrightarrow> orphan n (startCheck ctx ch c)"
  by (auto simp: orphan_def startCheck_simps)

lemma orphan_stop: "orphan n c \<Longrightarrow> stopCheck i c = Some c' \<Longrightarrow> orphan n c'"
  unfolding orphan_def stopCheck_def
  by (cases "map_of (checks c) i") (fastforce split: if_splits)+

lemma orphan_frame:
  "orphan n (new_summary ch c) = orphan n c" "orphan n (update_summary ch c) = orphan n c"
  "orphan n (delete_summary i c) = orphan n c" "orphan n (record_result i r u c) = orphan n c"
  "orphan n (send_result r c) = orphan n c" "orphan n (set_worker m p c) = orphan n c"
  by (simp_all add: orphan_def new_summary_def update_summary_def delete_summary_def record_result_def
      send_result_def set_worker_def split: option.split)

lemma orphan_call: "call_step k c w = Some (k', c', w') \<Longrightarrow> orphan n c \<Longrightarrow> orphan n c'"
  by (cases "(k, c, w)" rule: call_step.cases)
    (auto simp: orphan_frame orphan_start intro: orphan_stop split: prod.splits sum.splits)

lemma orphan_starts: "orphan n c \<Longrightarrow> orphan n (fold (start_if_enabled ctx) chs c)"
  by (induction chs arbitrary: c) (simp_all add: start_if_enabled_def orphan_start)

lemma orphan_step: "ck_step s t \<Longrightarrow> orphan n (skChecker s) \<Longrightarrow> orphan n (skChecker t)"
proof (induction rule: ck_step.induct)
  case (ck_start s r c w)
  then show ?case by (auto simp: Start_def orphan_starts split: prod.splits option.splits)
next
  case (ck_worker m s p c w)
  then show ?case by (auto simp: orphan_frame elim!: worker_stepE)
next
  case (ck_receive s r rs)
  then show ?case by (simp add: orphan_def)
qed (auto intro: orphan_call)

lemma orphan_steps: "ck_step\<^sup>*\<^sup>* s t \<Longrightarrow> orphan n (skChecker s) \<Longrightarrow> orphan n (skChecker t)"
  by (induction rule: rtranclp_induct) (auto intro: orphan_step)

text \<open>Two updates of one check, the second between the stages of the first.\<close>

definition upd :: URLCheck where "upd = the_check\<lparr>ucID := 1\<rparr>"

definition overlapped :: checker_system where
  "overlapped = the (drive [ArriveUpdate upd, ArriveUpdate upd, Advance 0, Advance 1, Advance 0, Advance 1,
     Advance 0, Advance 0, Advance 1, Advance 1, Respond 0, Respond 0] added)"

lemma overlapped_eq:
  "drive [ArriveUpdate upd, ArriveUpdate upd, Advance 0, Advance 1, Advance 0, Advance 1,
     Advance 0, Advance 0, Advance 1, Advance 1, Respond 0, Respond 0] added = Some overlapped"
  by (simp add: overlapped_def added_state upd_def drive_simps Let_def)

lemma overlapped_workers:
  "map (\<lambda>k. csStop (wkState k)) (workers (skChecker overlapped)) = [0, 1, 2]"
  "map (\<lambda>k. ucID (csCheck (wkState k))) (workers (skChecker overlapped)) = [1, 1, 1]"
  "closed (skChecker overlapped) = [0]" "made (skChecker overlapped) = 3"
  "map (\<lambda>(i, st). (i, csStop st)) (checks (skChecker overlapped)) = [(1, 2)]" "skCalls overlapped = []"
  by (simp_all add: overlapped_def added_state upd_def drive_simps Let_def)

text \<open>
  C23: two overlapping updates of one check leave a goroutine that no call can stop. A state is
  reachable in which no call is in flight, two goroutines probe check 1 side by side, and the
  stop channel of one of them stays open whatever happens afterwards, the removal of the check
  included: from then on it ends only with the context it was started under.
\<close>

theorem overlapping_updates_leak:
  "\<exists>s. reach ck_init ck_step s \<and> skCalls s = [] \<and>
     (\<exists>k k'. k \<in> set (workers (skChecker s)) \<and> k' \<in> set (workers (skChecker s)) \<and>
        ucID (csCheck (wkState k)) = 1 \<and> ucID (csCheck (wkState k')) = 1 \<and>
        csStop (wkState k) \<noteq> csStop (wkState k') \<and> csStop (wkState k') \<notin> set (closed (skChecker s)) \<and>
        \<not> (\<exists>t. ck_step\<^sup>*\<^sup>* s t \<and> (csStop (wkState k) \<in> set (closed (skChecker t)) \<or>
           (\<exists>q ended w c' w'. wkState q = wkState k \<and> worker_step ended (q, skChecker t, w) (None, c', w') \<and> wkCtx q \<notin> ended))))"
proof -
  let ?s = overlapped
  let ?k = "workers (skChecker ?s) ! 1" and ?k' = "workers (skChecker ?s) ! 2"
  have len: "length (workers (skChecker ?s)) = 3"
    using overlapped_workers(1) by (metis length_map list.size(3,4) numeral_3_eq_3 One_nat_def plus_1_eq_Suc add.commute)
  have stops: "csStop (wkState ?k) = 1" "csStop (wkState ?k') = 2"
    using len arg_cong [OF overlapped_workers(1), of "\<lambda>xs. xs ! 1"]
      arg_cong [OF overlapped_workers(1), of "\<lambda>xs. xs ! 2"] by simp_all
  have ids: "ucID (csCheck (wkState ?k)) = 1" "ucID (csCheck (wkState ?k')) = 1"
    using len arg_cong [OF overlapped_workers(2), of "\<lambda>xs. xs ! 1"]
      arg_cong [OF overlapped_workers(2), of "\<lambda>xs. xs ! 2"] by simp_all
  have "orphan 1 (skChecker ?s)"
    using overlapped_workers(3-5) by (auto simp: orphan_def dest!: map_of_SomeD)
  then have never: "csStop (wkState ?k) \<notin> set (closed (skChecker t))" if "ck_step\<^sup>*\<^sup>* ?s t" for t
    using orphan_steps [OF that] stops(1) by (simp add: orphan_def)
  then have "\<not> (\<exists>t. ck_step\<^sup>*\<^sup>* ?s t \<and> (csStop (wkState ?k) \<in> set (closed (skChecker t)) \<or>
      (\<exists>q ended w c' w'. wkState q = wkState ?k \<and> worker_step ended (q, skChecker t, w) (None, c', w') \<and> wkCtx q \<notin> ended)))"
    by (fastforce elim: worker_stepE)
  moreover have "reach ck_init ck_step ?s" by (rule drive_reach [OF overlapped_eq reach_added])
  ultimately show ?thesis using len stops ids overlapped_workers(3,6)
    by (intro exI [of _ ?s] conjI exI [of _ ?k] exI [of _ ?k']) simp_all
qed

text \<open>A removal that completes between the first and the second stage of an update.\<close>

definition resurrected :: checker_system where
  "resurrected = the (drive [ArriveUpdate upd, Advance 0, ArriveRemove 1, Advance 1, Advance 1, Advance 1,
     Respond 1, Advance 0, Advance 0, Advance 0, Respond 0] added)"

lemma resurrected_eq:
  "drive [ArriveUpdate upd, Advance 0, ArriveRemove 1, Advance 1, Advance 1, Advance 1,
     Respond 1, Advance 0, Advance 0, Advance 0, Respond 0] added = Some resurrected"
  by (simp add: resurrected_def added_state upd_def drive_simps Let_def)

text \<open>
  An update that overlaps the removal of its check brings the check back. A state is
  reachable in which both calls have returned, the check has no row, and it is still listed
  and registered, with a goroutine whose stop channel is open.
\<close>

theorem update_resurrects_removed_check:
  "\<exists>s. reach ck_init ck_step s \<and> skCalls s = [] \<and> checks_tbl (wdb (skWorld s)) = [] \<and>
     GetSummary 1 (skChecker s) \<noteq> None \<and>
     (\<exists>st. map_of (checks (skChecker s)) 1 = Some st \<and> csStop st \<notin> set (closed (skChecker s)) \<and>
        (\<exists>k \<in> set (workers (skChecker s)). wkState k = st))"
proof -
  have "reach ck_init ck_step resurrected" by (rule drive_reach [OF resurrected_eq reach_added])
  moreover have "skCalls resurrected = [] \<and> checks_tbl (wdb (skWorld resurrected)) = [] \<and>
     GetSummary 1 (skChecker resurrected) \<noteq> None \<and>
     (\<exists>st. map_of (checks (skChecker resurrected)) 1 = Some st \<and> csStop st \<notin> set (closed (skChecker resurrected)) \<and>
        (\<exists>k \<in> set (workers (skChecker resurrected)). wkState k = st))"
    by (simp add: resurrected_def added_state upd_def drive_simps Let_def GetSummary_def)
  ultimately show ?thesis by blast
qed

section \<open>Calls that do not overlap\<close>

text \<open>
  The same system with every call run to its end before the next. An update comes from a
  handler that has just read the check's row; the other components leave the checks alone.
\<close>

inductive serial_step :: "nat set \<times> Checker \<times> world \<Rightarrow> nat set \<times> Checker \<times> world \<Rightarrow> bool" where
  se_add: "Add ctx ch c w = (r, c', w') \<Longrightarrow> serial_step (x, c, w) (x, c', w')"
| se_update: "ucID ch \<in> ur_id ` set (checks_tbl (wdb w)) \<Longrightarrow> Update ctx ch c w = Some (r, c', w') \<Longrightarrow>
    serial_step (x, c, w) (x, c', w')"
| se_remove: "Remove i c w = Some (r, c', w') \<Longrightarrow> serial_step (x, c, w) (x, c', w')"
| se_worker: "n < length (workers c) \<Longrightarrow> worker_step x (workers c ! n, c, w) (p, c', w') \<Longrightarrow>
    serial_step (x, c, w) (x, set_worker n p c', w')"
| se_receive: "ResultCh c = r # rs \<Longrightarrow> serial_step (x, c, w) (x, c\<lparr>ResultCh := rs\<rparr>, w)"
| se_cancel: "serial_step (x, c, w) (insert ctx x, c, w)"
| se_storage: "storage_step w w' \<Longrightarrow> checks_tbl (wdb w') = checks_tbl (wdb w) \<Longrightarrow>
    checks_seq (wdb w') = checks_seq (wdb w) \<Longrightarrow> serial_step (x, c, w) (x, c, w')"

definition serial_init :: "nat set \<times> Checker \<times> world \<Rightarrow> bool" where
  "serial_init s \<longleftrightarrow> (\<exists>c0 w0 r. s = ({}, c0, w0) \<and>
     (\<exists>w. db_wf (wdb w) \<and> Start 0 NewChecker w = (r, c0, w0)))"

text \<open>Every goroutine with an open stop channel is the registered one of its check.\<close>

definition supervised :: "Checker \<Rightarrow> bool" where
  "supervised c \<longleftrightarrow> (\<forall>k \<in> set (workers c). csStop (wkState k) \<in> set (closed c) \<or>
     map_of (checks c) (ucID (csCheck (wkState k))) = Some (wkState k))"

definition serial_inv :: "nat set \<times> Checker \<times> world \<Rightarrow> bool" where
  "serial_inv s = (case s of (x, c, w) \<Rightarrow>
     db_wf (wdb w) \<and> checker_ok c \<and> supervised c \<and> (\<forall>i \<in> dom (map_of (checks c)). i \<le> checks_seq (wdb w)))"

lemma supervised_start:
  assumes "supervised c" and "map_of (checks c) (ucID ch) = None"
  shows "supervised (startCheck ctx ch c)"
  using assms unfolding supervised_def by (auto simp: startCheck_simps)

lemma supervised_stop:
  assumes "supervised c" and "stopCheck i c = Some c'"
  shows "supervised c' \<and> map_of (checks c') i = None \<and> dom (map_of (checks c')) \<subseteq> dom (map_of (checks c))"
  using assms unfolding supervised_def stopCheck_def
  by (cases "map_of (checks c) i") (auto split: if_splits)

lemma supervised_frame:
  "supervised (new_summary ch c) = supervised c" "checks (new_summary ch c) = checks c"
  "supervised (update_summary ch c) = supervised c" "checks (update_summary ch c) = checks c"
  "supervised (delete_summary i c) = supervised c" "checks (delete_summary i c) = checks c"
  "supervised (record_result i r u c) = supervised c" "checks (record_result i r u c) = checks c"
  "supervised (send_result r c) = supervised c" "checks (send_result r c) = checks c"
  "checks (set_worker n p c) = checks c" "closed (set_worker n p c) = closed c"
  by (simp_all add: supervised_def new_summary_def update_summary_def delete_summary_def record_result_def
      send_result_def set_worker_def split: option.split)

lemma supervised_set_worker: "supervised c \<Longrightarrow> supervised (set_worker n p c)"
proof (cases "n < length (workers c)")
  case True
  assume "supervised c"
  with True show ?thesis unfolding supervised_def supervised_frame
    by (auto simp: set_worker_def split: option.splits dest!: in_set_takeD in_set_dropD set_update_subset_insert [THEN subsetD])
qed (simp add: supervised_def set_worker_def list_update_beyond split: option.split)

lemma start_if_enabled_supervised:
  assumes "supervised c" and "map_of (checks c) (ucID ch) = None"
  shows "supervised (start_if_enabled ctx ch c) \<and>
    dom (map_of (checks (start_if_enabled ctx ch c))) \<subseteq> insert (ucID ch) (dom (map_of (checks c)))"
  using supervised_start [OF assms] assms by (auto simp: start_if_enabled_def startCheck_simps split: if_splits)

lemma disjoint_extend: "A' \<subseteq> insert i A \<Longrightarrow> A \<inter> S = {} \<Longrightarrow> i \<notin> S \<Longrightarrow> A' \<inter> S = {}"
  by blast

lemma union_extend: "F \<subseteq> B \<union> S \<Longrightarrow> B \<subseteq> insert i A \<Longrightarrow> F \<subseteq> A \<union> insert i S"
  by blast

lemma fold_start_supervised:
  assumes "distinct (map ucID chs)" and "supervised c" and "dom (map_of (checks c)) \<inter> ucID ` set chs = {}"
  shows "supervised (fold (start_if_enabled ctx) chs c) \<and>
    dom (map_of (checks (fold (start_if_enabled ctx) chs c))) \<subseteq> dom (map_of (checks c)) \<union> ucID ` set chs"
  using assms
proof (induction chs arbitrary: c)
  case (Cons ch chs)
  have new: "map_of (checks c) (ucID ch) = None" using Cons.prems(3) by auto
  note one = start_if_enabled_supervised [OF Cons.prems(2) new, of ctx]
  have "dom (map_of (checks (start_if_enabled ctx ch c))) \<inter> ucID ` set chs = {}"
  proof -
    have "dom (map_of (checks c)) \<inter> ucID ` set chs = {}" using Cons.prems(3) by auto
    moreover have "ucID ch \<notin> ucID ` set chs" using Cons.prems(1) by simp
    ultimately show ?thesis by (rule disjoint_extend [OF conjunct2 [OF one]])
  qed
  with Cons.IH [OF _ _ this] one Cons.prems(1)
  have "supervised (fold (start_if_enabled ctx) chs (start_if_enabled ctx ch c))"
    and "dom (map_of (checks (fold (start_if_enabled ctx) chs (start_if_enabled ctx ch c)))) \<subseteq>
      dom (map_of (checks (start_if_enabled ctx ch c))) \<union> ucID ` set chs" by simp_all
  with union_extend [OF this(2) conjunct2 [OF one]] show ?case by simp
qed simp

lemma Start_serial:
  assumes "db_wf (wdb w)" and "Start 0 NewChecker w = (r, c, w')"
  shows "serial_inv ({}, c, w')"
proof -
  have w': "wdb w' = wdb w" using assms(2) ListURLChecks_def query_frame(1) [of sql_list_checks scan_check w]
    by (auto simp: Start_def split: prod.splits option.splits)
  have ids: "distinct (map ur_id (checks_tbl (wdb w)))" "\<And>q. q \<in> set (checks_tbl (wdb w)) \<Longrightarrow> ur_id q \<le> checks_seq (wdb w)"
    using assms(1) by (auto simp: db_wf_def ids_ok_def)
  have nil: "checker_ok NewChecker" "supervised NewChecker" "checks NewChecker = []"
    by (simp_all add: NewChecker_ok supervised_def) (simp_all add: NewChecker_def)
  show ?thesis
  proof (cases r)
    case (Some e)
    then have "c = NewChecker" using assms(2) by (auto simp: Start_def split: prod.splits option.splits)
    then show ?thesis using nil assms(1) w' by (simp add: serial_inv_def)
  next
    case None
    obtain chs x w1 where l: "ListURLChecks w = ((chs, x), w1)" by (metis prod.collapse)
    with None assms(2) have x: "x = None" and c: "c = fold (start_if_enabled 0) chs NewChecker"
      by (auto simp: Start_def split: option.splits)
    from l x obtain rank where "chs = map scan_check (sql_list_checks rank (wdb w))"
      by (auto simp: ListURLChecks_def query_def Let_def split: verdict.splits option.splits)
    then have d: "distinct (map ucID chs)" and s: "ucID ` set chs = ur_id ` set (checks_tbl (wdb w))"
      using distinct_map_order_by [OF ids(1)] by (simp_all add: sql_list_checks_def scan_check_def comp_def image_image)
    have "supervised c \<and> dom (map_of (checks c)) \<subseteq> ucID ` set chs"
      using fold_start_supervised [OF d nil(2)] nil(3) by (simp add: c)
    moreover have "checker_ok c" unfolding c by (rule fold_start_ok [OF nil(1)])
    ultimately show ?thesis using ids(2) s assms(1) w' by (auto simp: serial_inv_def)
  qed
qed

lemma stopCheck_stop: "stopCheck i c = Some c' \<Longrightarrow> checker_ok c \<Longrightarrow> checker_ok c'"
  using stopCheck_ok [of c i] by auto

lemma insert_check_seq:
  assumes "InsertURLCheck ch w = (Inr i, w')"
  shows "i = checks_seq (wdb w) + 1 \<and> checks_seq (wdb w') = checks_seq (wdb w) + 1"
proof -
  have "sql_insert_check ch (wdb w) = Inr (i, wdb w')"
    using assms unfolding InsertURLCheck_def by (rule exec_Inr)
  then show ?thesis
    by (auto simp: sql_insert_check_def Let_def split: if_splits dest!: sym [of _ "wdb w'"])
qed

lemma serial_Add:
  assumes "Add ctx ch c w = (r, c', w')" and "serial_inv (x, c, w)"
  shows "serial_inv (x, c', w')"
proof -
  obtain v w1 where ins: "InsertURLCheck ch w = (v, w1)" by (cases "InsertURLCheck ch w")
  have wf: "db_wf (wdb w1)"
    using assms(2) storage_step_wf [OF st_insert_check [of w ch]] ins by (simp add: serial_inv_def)
  show ?thesis
  proof (cases v)
    case (Inl e)
    then have "c' = c" and "w' = w1" and "wdb w1 = wdb w"
      using assms(1) ins exec_Inl [of "sql_insert_check ch" w e w1] by (auto simp: Add_def InsertURLCheck_def)
    with assms(2) show ?thesis by (simp add: serial_inv_def)
  next
    case (Inr i)
    let ?ch = "ch\<lparr>ucID := i\<rparr>"
    have seq: "i = checks_seq (wdb w) + 1" "checks_seq (wdb w1) = checks_seq (wdb w) + 1"
      using insert_check_seq ins Inr by auto
    have c': "c' = start_if_enabled ctx ?ch (new_summary ?ch c)" and w': "w' = w1"
      using assms(1) ins Inr by (auto simp: Add_def Let_def)
    have le: "j \<le> checks_seq (wdb w)" if "map_of (checks c) j = Some st" for j st
      using assms(2) that by (auto simp: serial_inv_def)
    then have "map_of (checks c) i = None" using seq by (metis not_None_eq zle_add1_eq_le less_irrefl)
    then have sup: "supervised c' \<and> dom (map_of (checks c')) \<subseteq> insert i (dom (map_of (checks c)))"
      using start_if_enabled_supervised [of "new_summary ?ch c" ?ch ctx] assms(2) unfolding c'
      by (simp add: supervised_frame serial_inv_def)
    then have "j \<le> checks_seq (wdb w1)" if "j \<in> dom (map_of (checks c'))" for j
      using that le [of j] seq by fastforce
    moreover have "checker_ok c'" using assms(2) unfolding c' by (simp add: serial_inv_def start_if_enabled_ok new_summary_ok)
    ultimately show ?thesis using sup wf unfolding w' by (simp add: serial_inv_def)
  qed
qed

text \<open>The statements that leave the sequence of check ids alone.\<close>

lemma exec_keeps:
  "(\<And>r d'. stmt (wdb w) = Inr (r, d') \<Longrightarrow> f d' = f (wdb w)) \<Longrightarrow> f (wdb (snd (exec stmt w))) = f (wdb w)"
  by (cases rule: exec_cases [of stmt w]) auto

lemma checks_seq_kept:
  "checks_seq (wdb (snd (UpdateURLCheck u w))) = checks_seq (wdb w)"
  "checks_seq (wdb (snd (DeleteURLCheck i w))) = checks_seq (wdb w)"
  "checks_seq (wdb (snd (InsertURLResult q w))) = checks_seq (wdb w)"
  unfolding UpdateURLCheck_def DeleteURLCheck_def InsertURLResult_def
  by (rule exec_keeps, auto simp: sql_update_check_def sql_delete_check_def sql_insert_result_def Let_def
      split: if_splits)+

lemma serial_Update:
  assumes "Update ctx ch c w = Some (r, c', w')" and "serial_inv (x, c, w)"
    and "ucID ch \<in> ur_id ` set (checks_tbl (wdb w))"
  shows "serial_inv (x, c', w')"
proof -
  obtain v w1 where u: "UpdateURLCheck ch w = (v, w1)" by (cases "UpdateURLCheck ch w")
  have wf: "db_wf (wdb w1)"
    using assms(2) storage_step_wf [OF st_update_check [of w ch]] u by (simp add: serial_inv_def)
  have seq: "checks_seq (wdb w1) = checks_seq (wdb w)"
    using checks_seq_kept(1) [of ch w] u by simp
  have id: "ucID ch \<le> checks_seq (wdb w)" using assms(2,3) by (auto simp: serial_inv_def db_wf_def ids_ok_def)
  show ?thesis
  proof (cases v)
    case (Inl e)
    then have "c' = c" "w' = w1" using assms(1) u by (simp_all add: Update_def)
    with assms(2) wf seq show ?thesis by (simp add: serial_inv_def)
  next
    case (Inr y)
    then obtain c1 where c1: "stopCheck (ucID ch) c = Some c1"
      and c': "c' = start_if_enabled ctx ch (update_summary ch c1)" and w': "w' = w1"
      using assms(1) u by (auto simp: Update_def split: option.splits)
    have ok: "checker_ok c1" using stopCheck_stop [OF c1] assms(2) by (simp add: serial_inv_def)
    have stop: "supervised c1 \<and> map_of (checks c1) (ucID ch) = None \<and> dom (map_of (checks c1)) \<subseteq> dom (map_of (checks c))"
      using supervised_stop [OF _ c1] assms(2) by (simp add: serial_inv_def)
    then have sup: "supervised c' \<and> dom (map_of (checks c')) \<subseteq> insert (ucID ch) (dom (map_of (checks c)))"
      using start_if_enabled_supervised [of "update_summary ch c1" ch ctx] unfolding c' supervised_frame by blast
    then have "j \<le> checks_seq (wdb w)" if "j \<in> dom (map_of (checks c'))" for j
      using that id assms(2) unfolding serial_inv_def by (metis (no_types, lifting) case_prod_conv insertE subsetD)
    moreover have "checker_ok c'" unfolding c' by (simp add: start_if_enabled_ok update_summary_ok ok)
    ultimately show ?thesis using sup wf seq unfolding w' by (simp add: serial_inv_def)
  qed
qed

lemma serial_Remove:
  assumes "Remove i c w = Some (r, c', w')" and "serial_inv (x, c, w)"
  shows "serial_inv (x, c', w') \<and> map_of (checks c') i = None \<and> map_of (summaries c') i = None"
proof -
  obtain c1 where c1: "stopCheck i c = Some c1" and c': "c' = delete_summary i c1"
    and w': "w' = snd (DeleteURLCheck i w)"
    using assms(1) by (auto simp: Remove_def split: option.splits prod.splits sum.splits)
  have wf: "db_wf (wdb w')"
    using assms(2) storage_step_wf [OF st_delete_check [of w i]] w' by (simp add: serial_inv_def)
  have seq: "checks_seq (wdb w') = checks_seq (wdb w)"
    using checks_seq_kept(2) [of i w] w' by simp
  have ok: "checker_ok c1" using stopCheck_stop [OF c1] assms(2) by (simp add: serial_inv_def)
  have stop: "supervised c1 \<and> map_of (checks c1) i = None \<and> dom (map_of (checks c1)) \<subseteq> dom (map_of (checks c))"
    using supervised_stop [OF _ c1] assms(2) by (simp add: serial_inv_def)
  have "\<forall>j \<in> dom (map_of (checks c)). j \<le> checks_seq (wdb w)" using assms(2) by (simp add: serial_inv_def)
  then have "\<forall>j \<in> dom (map_of (checks c1)). j \<le> checks_seq (wdb w)" using stop by (meson subsetD)
  then show ?thesis using stop wf seq ok unfolding c' by (simp add: serial_inv_def supervised_frame delete_summary_ok)
    (simp add: delete_summary_def)
qed

lemma worker_step_registry:
  assumes "worker_step x (k, c, w) (p, c', w')"
  shows "checks c' = checks c \<and> (supervised c' = supervised c) \<and> checks_seq (wdb w') = checks_seq (wdb w) \<and>
    (db_wf (wdb w) \<longrightarrow> db_wf (wdb w'))"
proof -
  have store: "checks_seq (wdb (store_result r v)) = checks_seq (wdb v)" for r v
    unfolding store_result_def by (rule checks_seq_kept)
  have swf: "db_wf (wdb v) \<Longrightarrow> db_wf (wdb (store_result r v))" for r v
    unfolding store_result_def by (rule storage_step_wf [OF st_insert_result])
  have clock: "wdb v' = wdb v" if "named_check net d ch v = (r, v')" for net d ch v r v'
    using that by (auto simp: named_check_def doCheck_def time_Now_def split: prod.splits option.splits sum.splits)
  have uptime: "wdb (snd (URLUptime i t v)) = wdb v" for i t v by (simp add: URLUptime_def)
  have meas: "wdb v' = wdb v" if "measure_uptime ch v = (u, v')" for ch v u v'
    using that uptime [of "ucID ch" "fst (time_Now v) - 24 * Hour" "snd (time_Now v)"]
    by (auto simp: measure_uptime_def split: prod.splits sum.splits)
  show ?thesis
    by (rule worker_stepE [OF assms]) (auto simp: supervised_frame store swf clock meas)
qed

lemma serial_step_inv: "serial_step s t \<Longrightarrow> serial_inv s \<Longrightarrow> serial_inv t"
proof (induction rule: serial_step.induct)
  case (se_worker n c x w p c' w')
  then have "checker_ok (set_worker n p c')" by (auto simp: serial_inv_def intro: worker_step_ok)
  then show ?case using se_worker worker_step_registry [OF se_worker(2)]
    by (auto simp: serial_inv_def supervised_frame intro: supervised_set_worker)
next
  case (se_storage w w' x c)
  then show ?case by (simp add: serial_inv_def storage_step_wf)
qed (auto simp: serial_Add serial_Update serial_Remove, auto simp: serial_inv_def checker_ok_def supervised_def)

interpretation serial_sys: invariant_system serial_init serial_step serial_inv
  by unfold_locales (auto simp: serial_init_def Start_serial intro: serial_step_inv)

text \<open>
  C10: while calls do not overlap, at most one goroutine of a check has an open stop channel,
  and once \<open>Remove\<close> has returned, whatever the database answered, the check is not listed and
  every goroutine of it has been told to stop.
\<close>

theorem one_goroutine_per_check:
  assumes "reach serial_init serial_step (x, c, w)"
  shows "(\<forall>k \<in> set (workers c). \<forall>k' \<in> set (workers c).
      ucID (csCheck (wkState k)) = ucID (csCheck (wkState k')) \<and>
      csStop (wkState k) \<notin> set (closed c) \<and> csStop (wkState k') \<notin> set (closed c) \<longrightarrow> k = k') \<and>
    (\<forall>i r c' w'. Remove i c w = Some (r, c', w') \<longrightarrow> GetSummary i c' = None \<and>
      (\<forall>k \<in> set (workers c'). ucID (csCheck (wkState k)) = i \<longrightarrow> csStop (wkState k) \<in> set (closed c')))"
proof -
  have inv: "serial_inv (x, c, w)" by (rule serial_sys.inv_reach [OF assms])
  have "k = k'" if k: "k \<in> set (workers c)" "k' \<in> set (workers c)" "ucID (csCheck (wkState k)) = ucID (csCheck (wkState k'))"
    "csStop (wkState k) \<notin> set (closed c)" "csStop (wkState k') \<notin> set (closed c)" for k k'
  proof -
    have "supervised c" using inv by (simp add: serial_inv_def)
    then have "Some (wkState k) = Some (wkState k')" using k unfolding supervised_def by metis
    moreover have "inj_on (\<lambda>k. csStop (wkState k)) (set (workers c))"
      using inv by (simp add: serial_inv_def checker_ok_def distinct_map)
    ultimately show ?thesis using k(1,2) by (simp add: inj_on_def)
  qed
  moreover have "GetSummary i c' = None \<and>
      (\<forall>k \<in> set (workers c'). ucID (csCheck (wkState k)) = i \<longrightarrow> csStop (wkState k) \<in> set (closed c'))"
    if "Remove i c w = Some (r, c', w')" for i r c' w'
  proof -
    note rem = serial_Remove [OF that inv]
    then have "supervised c'" by (simp add: serial_inv_def)
    with rem show ?thesis unfolding supervised_def GetSummary_def by (metis option.distinct(1))
  qed
  ultimately show ?thesis by blast
qed

lemma serial_reach_fresh: "reach serial_init serial_step ({}, snd (Start 0 NewChecker (fresh_world 0)))"
proof (rule reach_init)
  show "serial_init ({}, snd (Start 0 NewChecker (fresh_world 0)))"
    unfolding serial_init_def
    by (rule exI [of _ "fst (snd (Start 0 NewChecker (fresh_world 0)))"],
        rule exI [of _ "snd (snd (Start 0 NewChecker (fresh_world 0)))"],
        rule exI [of _ "fst (Start 0 NewChecker (fresh_world 0))"])
      (auto intro!: exI [of _ "fresh_world 0"] simp: fresh_world_def)
qed

definition serial_added :: "nat set \<times> Checker \<times> world" where
  "serial_added = ({}, snd (Add 1 the_check NewChecker (fresh_world 0)))"

lemma serial_reach_added: "reach serial_init serial_step serial_added"
proof -
  have eq: "snd (Start 0 NewChecker (fresh_world 0)) = (NewChecker, fresh_world 0)"
    by (simp add: Start_def ListURLChecks_def query_def fresh_world_def sql_list_checks_def empty_db_def)
  obtain r c w where a: "Add 1 the_check NewChecker (fresh_world 0) = (r, c, w)" by (metis prod.collapse)
  show ?thesis unfolding serial_added_def a snd_conv
    by (rule reach_step [OF serial_reach_fresh [unfolded eq]]) (rule se_add [OF a])
qed

lemma one_goroutine_per_check_witness:
  "\<exists>r c' w'. Remove 1 (fst (snd serial_added)) (snd (snd serial_added)) = Some (r, c', w') \<and>
     length (workers c') = 1 \<and> (\<forall>k \<in> set (workers c'). csStop (wkState k) \<in> set (closed c'))"
proof -
  let ?c = "fst (snd serial_added)" and ?w = "snd (snd serial_added)"
  obtain r c' w' where rm: "Remove 1 ?c ?w = Some (r, c', w')" and len: "length (workers c') = 1"
    and ids: "\<forall>k \<in> set (workers c'). ucID (csCheck (wkState k)) = 1"
    by (simp add: serial_added_def Add_def Remove_def start_if_enabled_def drive_simps Let_def)
  have "reach serial_init serial_step (fst serial_added, ?c, ?w)" using serial_reach_added by simp
  from one_goroutine_per_check [OF this] rm ids have "\<forall>k \<in> set (workers c'). csStop (wkState k) \<in> set (closed c')"
    by blast
  with rm len show ?thesis by blast
qed

section \<open>One probe\<close>

lemma doCheck_shape:
  assumes "named_check net d ch w = (r, w')"
  shows "rsCheckID r = ucID ch \<and> wdb w' = wdb w \<and> verdicts w' = verdicts w \<and>
    (clock w' = stream_tail (clock w) \<or> clock w' = stream_tail (stream_tail (clock w))) \<and>
    ((\<exists>code. rsStatusCode r = Some code \<and> rsError r = None \<and> rsUp r = (code < 400) \<and> \<not> d \<and>
        client_Do net (check_timeout ch) [] (ucURL ch) = Inr code) \<or>
     (\<exists>e. rsStatusCode r = None \<and> rsLatencyMS r = None \<and> rsError r = Some e \<and> \<not> rsUp r))"
  using assms by (auto simp: named_check_def doCheck_def failed_result_def send_request_def time_Now_def
      split: prod.splits option.splits sum.splits if_splits)

text \<open>The requests of a probe: the check's URL, then the address each answer redirects to, at most five. The last answer settles
  the outcome: a failure, a status that redirects nowhere, or whatever the fifth request is answered.\<close>

definition requests_made :: "network \<Rightarrow> int \<Rightarrow> string \<Rightarrow> string list \<Rightarrow> bool" where
  "requests_made net timeout url us \<longleftrightarrow> us \<noteq> [] \<and> length us \<le> 5 \<and> us ! 0 = url \<and>
     (\<forall>k. Suc k < length us \<longrightarrow> (\<exists>code. roundTrip net timeout (take k us) (us ! k) = HopResp code (Some (us ! Suc k))))"

definition settled_by :: "network \<Rightarrow> int \<Rightarrow> string list \<Rightarrow> string + int \<Rightarrow> bool" where
  "settled_by net timeout us out \<longleftrightarrow>
     (case roundTrip net timeout (butlast us) (last us) of
        HopFail e \<Rightarrow> out = Inl e
      | HopResp code None \<Rightarrow> out = Inr code
      | HopResp code (Some _) \<Rightarrow> length us = 5 \<and> out = Inr code)"

lemma requests_made_snoc:
  assumes "requests_made net timeout url us" and "length us < 5"
    and "roundTrip net timeout (butlast us) (last us) = HopResp code (Some loc)"
  shows "requests_made net timeout url (us @ [loc])"
proof -
  have "\<exists>code. roundTrip net timeout (take k (us @ [loc])) ((us @ [loc]) ! k) = HopResp code (Some ((us @ [loc]) ! Suc k))"
    if "Suc k < length (us @ [loc])" for k
  proof (cases "Suc k = length us")
    case True
    then have "take k us = butlast us" "us ! k = last us"
      using assms(1) by (auto simp: butlast_conv_take last_conv_nth requests_made_def simp flip: True)
    with True assms(3) show ?thesis by (simp add: nth_append)
  next
    case False
    with that have "Suc k < length us" by simp
    with assms(1) show ?thesis by (simp add: requests_made_def nth_append)
  qed
  with assms(1,2) show ?thesis by (auto simp: requests_made_def nth_append)
qed

lemma client_Do_requests:
  assumes "requests_made net timeout u0 (via @ [url])"
  shows "\<exists>us. requests_made net timeout u0 us \<and> settled_by net timeout us (client_Do net timeout via url)"
  using assms
proof (induction net timeout via url rule: client_Do.induct)
  case (1 net timeout via url)
  have stop: ?case if "settled_by net timeout (via @ [url]) (client_Do net timeout via url)" using that "1.prems" by blast
  show ?case
  proof (cases "roundTrip net timeout via url")
    case (HopFail e)
    then show ?thesis by (intro stop) (simp add: settled_by_def client_Do.simps [of net timeout via url])
  next
    case (HopResp code loc)
    show ?thesis
    proof (cases loc)
      case None
      with HopResp show ?thesis by (intro stop) (simp add: settled_by_def client_Do.simps [of net timeout via url])
    next
      case (Some l)
      show ?thesis
      proof (cases "CheckRedirect (via @ [url])")
        case Follow
        then have "length (via @ [url]) < 5" by (simp add: CheckRedirect_def split: if_splits)
        then have "requests_made net timeout u0 ((via @ [url]) @ [l])"
          using requests_made_snoc [OF "1.prems"] HopResp Some by simp
        with "1.IH" [OF HopResp Some Follow] HopResp Some Follow show ?thesis
          by (simp add: client_Do.simps [of net timeout via url])
      next
        case UseLastResponse
        then have "length (via @ [url]) = 5" using "1.prems" by (auto simp: CheckRedirect_def requests_made_def split: if_splits)
        with HopResp Some UseLastResponse show ?thesis
          by (intro stop) (simp add: settled_by_def client_Do.simps [of net timeout via url])
      qed
    qed
  qed
qed

text \<open>The result of a probe begun at \<open>start\<close> and answered at \<open>answered\<close>.\<close>

definition failed_with :: "string \<Rightarrow> Result \<Rightarrow> bool" where
  "failed_with e r \<longleftrightarrow> \<not> rsUp r \<and> rsStatusCode r = None \<and> rsLatencyMS r = None \<and> rsError r = Some e"

definition probe_outcome :: "network \<Rightarrow> bool \<Rightarrow> URLCheck \<Rightarrow> time \<Rightarrow> time \<Rightarrow> Result \<Rightarrow> bool" where
  "probe_outcome net ended ch start answered r \<longleftrightarrow>
     rsCheckID r = ucID ch \<and> rsCheckedAt r = start \<and> rsURL r = ucURL ch \<and> rsLabel r = ucLabel ch \<and>
     (case newRequest net (ucURL ch) of
        Some e \<Rightarrow> failed_with e r
      | None \<Rightarrow>
          if ended then \<exists>e. failed_with e r
          else \<exists>us out. requests_made net (check_timeout ch) (ucURL ch) us \<and> settled_by net (check_timeout ch) us out \<and>
            (case out of
               Inl e \<Rightarrow> failed_with e r
             | Inr code \<Rightarrow> rsStatusCode r = Some code \<and> (rsUp r \<longleftrightarrow> code < 400) \<and> rsError r = None \<and>
                 rsLatencyMS r = Some (duration_ms (answered - start))))"

lemma named_check_outcome:
  assumes "named_check net d ch w = (r, w')"
  shows "probe_outcome net d ch (clock w 0) (clock w 1) r \<and> wdb w' = wdb w \<and> verdicts w' = verdicts w \<and>
    clock w' 0 = clock w (if newRequest net (ucURL ch) = None then 2 else 1)"
proof -
  have one: "requests_made net (check_timeout ch) (ucURL ch) ([] @ [ucURL ch])" by (simp add: requests_made_def)
  obtain us where us: "requests_made net (check_timeout ch) (ucURL ch) us"
    "settled_by net (check_timeout ch) us (client_Do net (check_timeout ch) [] (ucURL ch))"
    using client_Do_requests [OF one] by blast
  show ?thesis
  proof (cases "newRequest net (ucURL ch)")
    case (Some e)
    with assms show ?thesis
      by (auto simp: named_check_def doCheck_def time_Now_def probe_outcome_def failed_result_def failed_with_def
          stream_head_def stream_tail_def)
  next
    case None
    note defs = named_check_def doCheck_def time_Now_def probe_outcome_def failed_result_def failed_with_def
      stream_head_def stream_tail_def send_request_def numeral_2_eq_2
    show ?thesis
    proof (cases d)
      case True
      with None assms show ?thesis by (auto simp: defs)
    next
      case False
      show ?thesis
      proof (cases "client_Do net (check_timeout ch) [] (ucURL ch)")
        case (Inl e)
        with None False assms us show ?thesis by (auto simp: defs intro!: exI [of _ us] exI [of _ "Inl e"])
      next
        case (Inr code)
        with None False assms us show ?thesis by (auto simp: defs intro!: exI [of _ us] exI [of _ "Inr code"])
      qed
    qed
  qed
qed

text \<open>
  C11: a probe of a check that has its row and its summary, with the database serving. The check's URL is requested, and then
  the addresses the answers redirect to, at most five in all; the last answer is the outcome: up
  exactly for a status below 400, with the status and the milliseconds since the start; down with the error's text when a
  request fails or cannot be made. Exactly one row with that outcome is added; the
  summary's last result, its history of at most 20 and its 24-hour uptime are renewed; and the result is offered to the
  relay.
\<close>

theorem probe_is_recorded:
  assumes "healthy w" and "ucID ch \<in> ur_id ` set (checks_tbl (wdb w))"
    and "GetSummary (ucID ch) c = Some s" and "doAndStore net d ch c w = (c', w')"
  defines "now \<equiv> clock w (if newRequest net (ucURL ch) = None then 2 else 1)"
  shows "\<exists>r. probe_outcome net d ch (clock w 0) (clock w 1) r \<and>
    results_tbl (wdb w') = results_tbl (wdb w) @
      [\<lparr>rr_id = results_seq (wdb w) + 1, rr_check_id = ucID ch, rr_checked_at = Unix (clock w 0),
        rr_up = int_of_bool (rsUp r), rr_status_code = rsStatusCode r, rr_latency_ms = rsLatencyMS r,
        rr_error = rsError r\<rparr>] \<and>
    GetSummary (ucID ch) c' = Some (s\<lparr>smLastResult := Some r,
      smUptimePct := sql_uptime (uptime_rows (ucID ch) (Unix (now - 24 * Hour)) (wdb w')),
      smHistory := take 20 (r # smHistory s)\<rparr>) \<and>
    ResultCh c' = (if length (ResultCh c) < 64 then ResultCh c @ [r] else ResultCh c)"
proof -
  obtain r w1 where r: "named_check net d ch w = (r, w1)" by (cases "named_check net d ch w")
  from named_check_outcome [OF r] have out: "probe_outcome net d ch (clock w 0) (clock w 1) r"
    and w1: "wdb w1 = wdb w" "verdicts w1 = verdicts w" "clock w1 0 = now" by (simp_all add: now_def)
  have id: "rsCheckID r = ucID ch" "rsCheckedAt r = clock w 0" using out by (simp_all add: probe_outcome_def)
  let ?row = "\<lparr>rr_id = results_seq (wdb w) + 1, rr_check_id = ucID ch, rr_checked_at = Unix (clock w 0),
        rr_up = int_of_bool (rsUp r), rr_status_code = rsStatusCode r, rr_latency_ms = rsLatencyMS r,
        rr_error = rsError r\<rparr>"
  have h1: "healthy w1" using w1 assms(1) by (auto intro: healthy_same)
  have ins: "sql_insert_result (stored_result r) (wdb w1) =
      Inr ((), (wdb w)\<lparr>results_seq := results_seq (wdb w) + 1, results_tbl := results_tbl (wdb w) @ [?row]\<rparr>)"
    using w1 id assms(2) by (simp add: sql_insert_result_def stored_result_def Let_def)
  have h2: "healthy (store_result r w1)" using h1 by (simp add: store_result_def InsertURLResult_def)
  have d2: "results_tbl (wdb (store_result r w1)) = results_tbl (wdb w) @ [?row]"
    using exec_healthy [where stmt = "sql_insert_result (stored_result r)", OF h1 ins]
    by (simp add: store_result_def InsertURLResult_def)
  have clock: "clock (store_result r w1) 0 = now" using w1 by (simp add: store_result_def InsertURLResult_def)
  obtain u w2 where u: "measure_uptime ch (store_result r w1) = (u, w2)" by (metis prod.collapse)
  have up: "wdb w2 = wdb (store_result r w1) \<and>
      u = sql_uptime (uptime_rows (ucID ch) (Unix (now - 24 * Hour)) (wdb (store_result r w1)))"
    using u h2 clock by (auto simp: measure_uptime_def URLUptime_def query_row_def query_def time_Now_def Let_def stream_head_def [of "clock _"]
        elim!: healthy_head split: prod.splits)
  have "w' = w2" "c' = send_result r (record_result (ucID ch) r u c)"
    using assms(4) r u by (simp_all add: doAndStore_def)
  then show ?thesis using out d2 up assms(3)
    by (intro exI [of _ r]) (auto simp: GetSummary_def record_result_def send_result_def record_summary_def)
qed

definition ok_net :: network where
  "ok_net = \<lparr>newRequest = (\<lambda>_. None), roundTrip = (\<lambda>_ _ _. HopResp 200 None), shownURL = (\<lambda>u. u)\<rparr>"

lemma probe_is_recorded_witness:
  "map rr_status_code (results_tbl (wdb (snd (doAndStore ok_net False upd (skChecker added) (skWorld added))))) = [Some 200]"
proof -
  obtain c' w' where d: "doAndStore ok_net False upd (skChecker added) (skWorld added) = (c', w')" by (metis prod.collapse)
  have "healthy (skWorld added)" "ucID upd \<in> ur_id ` set (checks_tbl (wdb (skWorld added)))"
    "results_tbl (wdb (skWorld added)) = []"
    by (simp_all add: added_state upd_def the_check_def healthy_def fresh_world_def empty_db_def)
  moreover obtain s where "GetSummary (ucID upd) (skChecker added) = Some s"
    by (simp add: added_state GetSummary_def upd_def the_check_def)
  moreover have "rsStatusCode r = Some 200" if "probe_outcome ok_net False upd t t' r" for r t t'
    using that by (auto simp: probe_outcome_def ok_net_def settled_by_def)
  ultimately show ?thesis using probe_is_recorded [OF _ _ _ d] by (fastforce simp: d)
qed

section \<open>Contexts\<close>

text \<open>The context a call runs under.\<close>

fun call_ctx :: "call \<Rightarrow> nat" where
  "call_ctx (AddInsert ctx ch) = ctx"
| "call_ctx (AddSummary ctx ch) = ctx"
| "call_ctx (StartCheck ctx ch) = ctx"
| "call_ctx (UpdateRow ctx ch) = ctx"
| "call_ctx (UpdateStop ctx ch) = ctx"
| "call_ctx (UpdateSummary ctx ch) = ctx"
| "call_ctx (RemoveStop ctx i) = ctx"
| "call_ctx (RemoveSummary ctx i) = ctx"
| "call_ctx (RemoveRow ctx i) = ctx"
| "call_ctx (Returned ctx) = ctx"

definition contexts_ok :: "checker_system \<Rightarrow> bool" where
  "contexts_ok s \<longleftrightarrow> (\<forall>k \<in> set (workers (skChecker s)).
     wkCtx k = 0 \<or> wkCtx k \<in> skCancelled s \<or> wkCtx k \<in> call_ctx ` set (skCalls s))"

lemma call_step_ctx:
  assumes "call_step k c w = Some (k', c', w')"
  shows "call_ctx k' = call_ctx k \<and> (\<forall>q \<in> set (workers c'). q \<in> set (workers c) \<or> wkCtx q = call_ctx k)"
  using assms by (cases "(k, c, w)" rule: call_step.cases)
    (auto simp: start_or_return_def new_summary_def update_summary_def delete_summary_def stopCheck_def startCheck_simps
      split: prod.splits sum.splits option.splits if_splits)

lemma image_list_update:
  "n < length xs \<Longrightarrow> f y = f (xs ! n) \<Longrightarrow> f ` set (xs[n := y]) = f ` set xs"
  by (metis list_update_id map_update set_map)

lemma set_worker_ctx:
  assumes "q \<in> set (workers (set_worker n p c))"
  shows "\<exists>q' \<in> set (workers c). wkCtx q' = wkCtx q"
proof (cases p)
  case None
  with assms show ?thesis by (auto simp: set_worker_def dest: in_set_takeD in_set_dropD)
next
  case (Some ph)
  show ?thesis
  proof (cases "n < length (workers c)")
    case True
    with assms Some show ?thesis by (auto simp: set_worker_def dest!: set_update_subset_insert [THEN subsetD])
  qed (use assms Some in \<open>auto simp: set_worker_def list_update_beyond\<close>)
qed

lemma fold_start_ctx: "q \<in> set (workers (fold (start_if_enabled ctx) chs c)) \<Longrightarrow> q \<in> set (workers c) \<or> wkCtx q = ctx"
  by (induction chs arbitrary: c) (fastforce simp: start_if_enabled_def startCheck_simps split: if_splits)+

lemma contexts_step: "ck_step s t \<Longrightarrow> contexts_ok s \<Longrightarrow> contexts_ok t"
proof (induction rule: ck_step.induct)
  case (ck_start s r c w)
  then have "c = skChecker s \<or> (\<exists>chs. c = fold (start_if_enabled 0) chs (skChecker s))"
    by (auto simp: Start_def split: prod.splits option.splits)
  with ck_start(4) show ?case by (auto simp: contexts_ok_def dest!: fold_start_ctx)
next
  case (ck_worker n s p c w)
  have "workers c = workers (skChecker s)"
    using ck_worker(2) by (auto elim!: worker_stepE simp: record_result_def send_result_def split: option.splits)
  then have "\<exists>q' \<in> set (workers (skChecker s)). wkCtx q' = wkCtx q" if "q \<in> set (workers (set_worker n p c))" for q
    using set_worker_ctx [OF that] by simp
  with ck_worker(3) show ?case unfolding contexts_ok_def by simp metis
next
  case (ck_call n s k c w)
  note k = call_step_ctx [OF ck_call(2)]
  have "call_ctx ` set ((skCalls s)[n := k]) = call_ctx ` set (skCalls s)"
    using ck_call(1) k by (simp add: image_list_update)
  moreover have "call_ctx (skCalls s ! n) \<in> call_ctx ` set (skCalls s)" using ck_call(1) by simp
  ultimately show ?case using ck_call(3) k unfolding contexts_ok_def by simp metis
next
  case (ck_respond n s ctx)
  have "set (skCalls s) = insert (Returned ctx) (set (take n (skCalls s) @ drop (Suc n) (skCalls s)))"
    using id_take_nth_drop [OF ck_respond(1)] ck_respond(2)
    by (metis Un_insert_right list.simps(15) set_append)
  then have "call_ctx ` set (skCalls s) = insert ctx (call_ctx ` set (take n (skCalls s) @ drop (Suc n) (skCalls s)))"
    by simp
  with ck_respond(3) show ?case unfolding contexts_ok_def by auto
qed (auto simp: contexts_ok_def)

interpretation ck_contexts: invariant_system ck_init ck_step contexts_ok
  by unfold_locales (simp add: ck_init_def contexts_ok_def NewChecker_def, rule contexts_step)

text \<open>
  C6: a check created or changed through the API is probed under the context of its HTTP
  request, which is done once the handler has returned. In every reachable state with no call
  in flight, a goroutine that does not run under the server's context reports its check down
  at every probe it still starts, whatever the network would answer.
\<close>

theorem api_checks_probe_down:
  assumes "reach ck_init ck_step s" and "skCalls s = []" and "k \<in> set (workers (skChecker s))" and "wkCtx k \<noteq> 0"
    and "wkPhase k = Checking" and "worker_step (skCancelled s) (k, skChecker s, skWorld s) (p, c, w)"
  shows "\<exists>r. p = Some (Storing r) \<and> \<not> rsUp r \<and> rsError r \<noteq> None"
proof -
  have "wkCtx k \<in> skCancelled s"
    using ck_contexts.inv_reach [OF assms(1)] assms(2-4) by (auto simp: contexts_ok_def)
  then obtain net r where p: "p = Some (Storing r)"
    and r: "named_check net True (csCheck (wkState k)) (skWorld s) = (r, w)"
    using assms(5,6) by (auto elim!: worker_stepE)
  from doCheck_shape [OF r] p show ?thesis by auto
qed

lemma api_checks_probe_down_witness:
  "\<exists>r. fst (named_check ok_net (1 \<in> skCancelled added) upd (skWorld added)) = r \<and> \<not> rsUp r"
proof -
  let ?k = "\<lparr>wkCtx = 1, wkState = \<lparr>csCheck = the_check\<lparr>ucID := 1\<rparr>, csStop = 0\<rparr>, wkPhase = Checking\<rparr>"
  obtain r w where n: "named_check ok_net (1 \<in> skCancelled added) upd (skWorld added) = (r, w)" by (metis prod.collapse)
  have "worker_step (skCancelled added) (?k, skChecker added, skWorld added) (Some (Storing r), skChecker added, w)"
    using n by (intro wk_check) (simp_all add: upd_def)
  from api_checks_probe_down [OF reach_added _ _ _ _ this] n show ?thesis by (simp add: added_state)
qed

section \<open>Restarting\<close>

lemma start_lists:
  "dom (map_of (summaries (fold (start_if_enabled ctx) chs c))) =
   dom (map_of (summaries c)) \<union> ucID ` {ch \<in> set chs. ucEnabled ch}"
proof (induction chs arbitrary: c)
  case (Cons ch chs)
  have "dom (map_of (summaries (start_if_enabled ctx ch c))) =
      dom (map_of (summaries c)) \<union> (if ucEnabled ch then {ucID ch} else {})"
    by (auto simp: start_if_enabled_def startCheck_simps)
  with Cons show ?case by auto
qed simp

text \<open>
  At startup, the database serving, exactly the enabled checks are listed and started. A
  disabled check is in the list only until the next restart: the list of the API is built from
  the summaries, and a disabled check gets none.
\<close>

theorem restart_lists_enabled_only:
  assumes "healthy w" and "Start ctx NewChecker w = (err, c, w')"
  shows "err = None \<and> (GetSummary i c \<noteq> None \<longleftrightarrow> (\<exists>q \<in> set (checks_tbl (wdb w)). ur_id q = i \<and> ur_enabled q = 1))"
proof -
  obtain rank where l: "ListURLChecks w =
      ((map scan_check (sql_list_checks rank (wdb w)), None), w\<lparr>verdicts := stream_tail (verdicts w)\<rparr>)"
    unfolding ListURLChecks_def by (rule query_healthy [OF assms(1)])
  then have "err = None" and c: "c = fold (start_if_enabled ctx) (map scan_check (sql_list_checks rank (wdb w))) NewChecker"
    using assms(2) by (simp_all add: Start_def)
  moreover have "dom (map_of (summaries c)) = ur_id ` {q \<in> set (checks_tbl (wdb w)). ur_enabled q = 1}"
    unfolding c start_lists by (force simp: NewChecker_def sql_list_checks_def scan_check_def)
  ultimately show ?thesis unfolding GetSummary_def by (auto simp: set_eq_iff domIff image_iff)
qed

definition off_check :: URLCheck where "off_check = upd\<lparr>ucEnabled := False\<rparr>"

text \<open>A check created disabled: listed before the restart, with its row in place, not listed after.\<close>

lemma restart_lists_enabled_only_witness:
  "\<exists>c w c' w'. Add 1 off_check NewChecker (fresh_world 0) = ((off_check, None), c, w) \<and> GetSummary 1 c \<noteq> None \<and>
     checks_tbl (wdb w) \<noteq> [] \<and> Start 0 NewChecker w = (None, c', w') \<and> GetSummary 1 c' = None"
proof -
  obtain c w where add: "Add 1 off_check NewChecker (fresh_world 0) = ((off_check, None), c, w)"
    and c: "GetSummary 1 c \<noteq> None" and h: "healthy w" and row: "checks_tbl (wdb w) \<noteq> []"
    and off: "\<forall>q \<in> set (checks_tbl (wdb w)). ur_enabled q \<noteq> 1"
    by (simp add: Add_def off_check_def upd_def drive_simps start_if_enabled_def GetSummary_def healthy_def Let_def)
  obtain err c' w' where st: "Start 0 NewChecker w = (err, c', w')" by (metis prod.collapse)
  from restart_lists_enabled_only [OF h st, of 1] off have "err = None" "GetSummary 1 c' = None" by blast+
  with add c row st show ?thesis by blast
qed

section \<open>Periods and redirections\<close>

text \<open>
  The periods a goroutine works with. Whatever a check's settings, the ticker's interval
  is at least a second, so that \<open>NewTicker\<close> never panics, and the timeout is positive; within
  the 292 years that 64 bits of nanoseconds hold, both are the configured seconds.
\<close>

theorem check_periods:
  "Second \<le> check_interval ch \<and> is_int64 (check_interval ch) \<and> 0 < check_timeout ch \<and> is_int64 (check_timeout ch) \<and>
   (1 \<le> ucIntervalSeconds ch \<and> ucIntervalSeconds ch \<le> 9223372036 \<longrightarrow>
      check_interval ch = ucIntervalSeconds ch * Second) \<and>
   (1 \<le> ucTimeoutSeconds ch \<and> ucTimeoutSeconds ch \<le> 9223372036 \<longrightarrow>
      check_timeout ch = ucTimeoutSeconds ch * Second)"
proof -
  have exact: "seconds n = n * Second" if "1 \<le> n" "n \<le> 9223372036" for n
    using that unfolding seconds_def by (intro int64_id) (simp add: is_int64_def Second_def)
  have range: "is_int64 (seconds n)" for n by (simp add: seconds_def int64_range)
  have "is_int64 Second" "is_int64 (10 * Second)" by (simp_all add: is_int64_def Second_def)
  then show ?thesis using range exact
    by (auto simp: check_interval_def check_timeout_def Let_def not_less not_le)
      (simp_all add: Second_def)
qed

lemma check_periods_witness: "check_interval upd = 60 * Second \<and> check_timeout upd = 10 * Second"
  using check_periods [of upd] by (simp add: upd_def the_check_def)

text \<open>
  C24: a probe sends at most five requests: two networks that agree on the requests made after
  fewer than five others give every probe the same outcome, however many redirections follow.
\<close>

theorem at_most_five_requests:
  assumes "\<And>via u. length via < 5 \<Longrightarrow> roundTrip net t via u = roundTrip net' t via u" and "length via < 5"
  shows "client_Do net t via url = client_Do net' t via url"
  using assms
proof (induction net t via url rule: client_Do.induct)
  case (1 n timeout via url)
  have same: "roundTrip n timeout via url = roundTrip net' timeout via url" using 1(2,3) by blast
  show ?case
  proof (cases "roundTrip n timeout via url")
    case (HopResp code loc)
    then show ?thesis
    proof (cases loc)
      case (Some l)
      show ?thesis
      proof (cases "CheckRedirect (via @ [url])")
        case Follow
        then have "length (via @ [url]) < 5" by (simp add: CheckRedirect_def split: if_splits)
        from 1(1) [OF HopResp Some Follow 1(2) this] show ?thesis
          using HopResp Some Follow same
          by (simp add: client_Do.simps [of n timeout via url] client_Do.simps [of net' timeout via url])
      next
        case UseLastResponse
        then show ?thesis using HopResp Some same
          by (simp add: client_Do.simps [of n timeout via url] client_Do.simps [of net' timeout via url])
      qed
    qed (use same in \<open>simp add: client_Do.simps [of n timeout via url] client_Do.simps [of net' timeout via url]\<close>)
  qed (use same in \<open>simp add: client_Do.simps [of n timeout via url] client_Do.simps [of net' timeout via url]\<close>)
qed

text \<open>A page that redirects to itself for ever: the fifth response is the outcome.\<close>

definition loop_net :: "int \<Rightarrow> network" where
  "loop_net c = \<lparr>newRequest = (\<lambda>_. None),
     roundTrip = (\<lambda>t via u. HopResp (if length via < 5 then 302 else c) (Some u)),
     shownURL = (\<lambda>u. u)\<rparr>"

lemma at_most_five_requests_witness: "client_Do (loop_net 500) 1 [] ''u'' = client_Do (loop_net 302) 1 [] ''u''"
  by (rule at_most_five_requests) (simp_all add: loop_net_def)

end
