(* ===== verification/Sse_Props.thy ===== *)
theory Sse_Props
  imports Sse
begin

text \<open>
  The broker as a system: the loop \<open>Run\<close>, the handlers of the connections and the goroutines
  that post events, interleaved at channel operations. No interleaving panics or exceeds a
  capacity; every client sees a subsequence of the posted events, in order; a client that
  leaves before it was registered is kept for ever.
\<close>

section \<open>The system\<close>

text \<open>
  Beside the broker, the events relayed so far and the events posted so far. The identifier of
  a connection is 64 random bits, taken to differ from those in use.
\<close>

type_synonym sse_state = "Broker \<times> Event list \<times> Event list"

inductive sse_step :: "sse_state \<Rightarrow> sse_state \<Rightarrow> bool" where
  ss_post: "sse_step (b, rel, ps) (Broadcast e b, rel, ps @ [e])"
| ss_register: "running b \<Longrightarrow> run_register b = Some b' \<Longrightarrow> sse_step (b, rel, ps) (b', rel, ps)"
| ss_unregister: "running b \<Longrightarrow> run_unregister b = Some b' \<Longrightarrow> sse_step (b, rel, ps) (b', rel, ps)"
| ss_broadcast: "running b \<Longrightarrow> broadcast b = e # es \<Longrightarrow> run_broadcast rank b = Some b' \<Longrightarrow>
    sse_step (b, rel, ps) (b', rel @ [e], ps)"
| ss_heartbeat: "running b \<Longrightarrow> sse_step (b, rel, ps) (run_heartbeat b, rel, ps @ [heartbeat])"
| ss_done: "sse_step (b, rel, ps) (b\<lparr>running := False\<rparr>, rel, ps)"
| ss_start: "newid \<notin> clID ` set (conns b) \<Longrightarrow> sse_step (b, rel, ps) (snd (serve_start flusher newid b), rel, ps)"
| ss_enter: "c < length (conns b) \<Longrightarrow> clStage (conns b ! c) = Registering \<Longrightarrow> serve_register c b = Some b' \<Longrightarrow>
    sse_step (b, rel, ps) (b', rel, ps)"
| ss_receive: "c < length (conns b) \<Longrightarrow> clStage (conns b ! c) = Streaming \<Longrightarrow> serve_receive c b = Some b' \<Longrightarrow>
    sse_step (b, rel, ps) (b', rel, ps)"
| ss_disconnect: "c < length (conns b) \<Longrightarrow> clStage (conns b ! c) = Streaming \<Longrightarrow>
    sse_step (b, rel, ps) (set_stage c Leaving b, rel, ps)"
| ss_leave: "c < length (conns b) \<Longrightarrow> clStage (conns b ! c) = Leaving \<Longrightarrow> serve_unregister c b = Some b' \<Longrightarrow>
    sse_step (b, rel, ps) (b', rel, ps)"

definition sse_init :: "sse_state \<Rightarrow> bool" where
  "sse_init s \<longleftrightarrow> s = (NewBroker, [], [])"

section \<open>The invariant\<close>

definition mapped :: "Broker \<Rightarrow> nat \<Rightarrow> bool" where
  "mapped b c \<longleftrightarrow> c \<in> snd ` set (clients b)"

definition client_ok :: "Broker \<Rightarrow> Event list \<Rightarrow> nat \<Rightarrow> client \<Rightarrow> bool" where
  "client_ok b rel c k \<longleftrightarrow>
     (clStage k = Registering \<longrightarrow> c \<notin> set (register b)) \<and>
     (c \<in> set (register b) \<longrightarrow> \<not> mapped b c) \<and>
     (c \<in> set (register b) \<or> mapped b c \<or> c \<in> set (unregister b) \<or> clStage k \<noteq> Gone \<longrightarrow> \<not> clClosed k) \<and>
     (mapped b c \<longrightarrow> clStage k \<noteq> Registering) \<and>
     (c \<in> set (unregister b) \<longrightarrow> clStage k = Gone) \<and>
     length (clSend k) \<le> 64 \<and> subseq (clWritten k @ clSend k) rel"

definition broker_ok :: "Broker \<Rightarrow> bool" where
  "broker_ok b \<longleftrightarrow>
     distinct (map clID (conns b)) \<and> keys_distinct (clients b) \<and>
     (\<forall>(i, c) \<in> set (clients b). c < length (conns b) \<and> i = clID (conns b ! c)) \<and>
     distinct (register b) \<and> distinct (unregister b) \<and>
     (\<forall>c \<in> set (register b) \<union> set (unregister b). c < length (conns b)) \<and>
     length (broadcast b) \<le> 256 \<and> length (register b) \<le> 16 \<and> length (unregister b) \<le> 16"

definition sse_inv :: "sse_state \<Rightarrow> bool" where
  "sse_inv s = (case s of (b, rel, ps) \<Rightarrow>
     broker_ok b \<and> (\<forall>c < length (conns b). client_ok b rel c (conns b ! c)) \<and> subseq (rel @ broadcast b) ps)"

lemma sse_invI:
  "broker_ok b \<Longrightarrow> (\<And>c. c < length (conns b) \<Longrightarrow> client_ok b rel c (conns b ! c)) \<Longrightarrow>
   subseq (rel @ broadcast b) ps \<Longrightarrow> sse_inv (b, rel, ps)"
  by (simp add: sse_inv_def)

lemma sse_invD:
  assumes "sse_inv (b, rel, ps)"
  shows "broker_ok b" and "\<And>c. c < length (conns b) \<Longrightarrow> client_ok b rel c (conns b ! c)"
    and "subseq (rel @ broadcast b) ps"
  using assms by (simp_all add: sse_inv_def)

lemma conns_inj:
  "broker_ok b \<Longrightarrow> c < length (conns b) \<Longrightarrow> d < length (conns b) \<Longrightarrow>
   clID (conns b ! c) = clID (conns b ! d) \<Longrightarrow> c = d"
  by (auto simp: broker_ok_def distinct_conv_nth)

lemma mapped_iff:
  assumes "broker_ok b" and "c < length (conns b)"
  shows "mapped b c \<longleftrightarrow> map_of (clients b) (clID (conns b ! c)) = Some c"
    and "map_of (clients b) (clID (conns b ! c)) = Some d \<Longrightarrow> d = c"
proof -
  have k: "keys_distinct (clients b)" and m: "\<And>i d. (i, d) \<in> set (clients b) \<Longrightarrow> d < length (conns b) \<and> i = clID (conns b ! d)"
    using assms(1) by (auto simp: broker_ok_def)
  show "mapped b c \<longleftrightarrow> map_of (clients b) (clID (conns b ! c)) = Some c"
    unfolding mapped_def map_of_in_set [OF k, symmetric] using m by force
  show "d = c" if "map_of (clients b) (clID (conns b ! c)) = Some d"
    using m [of _ d] that conns_inj [OF assms] by (auto simp: map_of_in_set [OF k, symmetric])
qed

text \<open>The invariant does not look at the state of \<open>Run\<close>, and little at a growing log of events.\<close>

lemma client_ok_more: "client_ok b rel c k \<Longrightarrow> subseq rel rel' \<Longrightarrow> client_ok b rel' c k"
  unfolding client_ok_def by (meson subseq_order.trans)

lemma client_ok_cong:
  "register b' = register b \<Longrightarrow> unregister b' = unregister b \<Longrightarrow> clients b' = clients b \<Longrightarrow>
   client_ok b' rel c k = client_ok b rel c k"
  by (simp add: client_ok_def mapped_def)

lemma broadcast_ok:
  assumes "sse_inv (b, rel, ps)"
  shows "sse_inv (Broadcast e b, rel, ps @ [e])"
proof -
  note d = sse_invD [OF assms]
  show ?thesis
  proof (rule sse_invI)
    show "broker_ok (Broadcast e b)" using d(1) by (simp add: broker_ok_def Broadcast_def)
    show "client_ok (Broadcast e b) rel c (conns (Broadcast e b) ! c)" if "c < length (conns (Broadcast e b))" for c
      using d(2) [of c] that by (simp add: Broadcast_def client_ok_def mapped_def split: if_splits)
    show "subseq (rel @ broadcast (Broadcast e b)) (ps @ [e])"
      using d(3) subseq_snocI [OF d(3), of e] subseq_extendI [OF d(3), of "[e]"] by (simp add: Broadcast_def)
  qed
qed

lemma start_ok:
  assumes "sse_inv (b, rel, ps)" and "newid \<notin> clID ` set (conns b)"
  shows "sse_inv (snd (serve_start flusher newid b), rel, ps)"
proof (cases flusher)
  case True
  note d = sse_invD [OF assms(1)]
  let ?n = "length (conns b)"
  have new: "?n \<notin> set (register b)" "?n \<notin> set (unregister b)" "\<not> mapped b ?n"
    using d(1) by (auto simp: broker_ok_def mapped_def)
  show ?thesis
  proof (rule sse_invI)
    let ?k = "\<lparr>clID = newid, clSend = [], clClosed = False, clStage = Registering, clWritten = []\<rparr>"
    have b': "snd (serve_start flusher newid b) = b\<lparr>conns := conns b @ [?k]\<rparr>" using True by (simp add: serve_start_def)
    have "c < length (conns b @ [?k]) \<and> i = clID ((conns b @ [?k]) ! c)" if "(i, c) \<in> set (clients b)" for i c
      using d(1) that by (auto simp: broker_ok_def nth_append)
    moreover have "c < length (conns b @ [?k])" if "c \<in> set (register b) \<union> set (unregister b)" for c
    proof -
      have "c < length (conns b)" using d(1) that unfolding broker_ok_def by blast
      then show ?thesis by simp
    qed
    moreover have "distinct (map clID (conns b @ [?k]))" using d(1) assms(2) by (simp add: broker_ok_def)
    ultimately show "broker_ok (snd (serve_start flusher newid b))"
      using d(1) unfolding b' broker_ok_def by fastforce
    show "client_ok (snd (serve_start flusher newid b)) rel c (conns (snd (serve_start flusher newid b)) ! c)"
      if "c < length (conns (snd (serve_start flusher newid b)))" for c
      using that True new d(2) [of c]
      by (cases "c = ?n") (auto simp: serve_start_def nth_append client_ok_def mapped_def)
    show "subseq (rel @ broadcast (snd (serve_start flusher newid b))) ps" using d(3) True by (simp add: serve_start_def)
  qed
qed (use assms in \<open>simp add: serve_start_def\<close>)

text \<open>A step that rewrites one connection and keeps its identifier, the map of clients and the
  posted events.\<close>

lemma update_ok:
  assumes "sse_inv (b, rel, ps)" and "c < length (conns b)" and "clID k = clID (conns b ! c)"
    and b': "conns b' = (conns b)[c := k]" "clients b' = clients b" "broadcast b' = broadcast b"
    and q: "set (register b') - {c} = set (register b) - {c}" "set (unregister b') - {c} = set (unregister b) - {c}"
      "distinct (register b')" "distinct (unregister b')" "length (register b') \<le> 16" "length (unregister b') \<le> 16"
    and k: "client_ok b' rel c k"
  shows "sse_inv (b', rel, ps)"
proof -
  note d = sse_invD [OF assms(1)]
  have ids: "map clID (conns b') = map clID (conns b)"
    using assms(2,3) by (simp add: b' map_update list_update_same_conv)
  have id: "clID (conns b' ! e) = clID (conns b ! e)" if "e < length (conns b)" for e
    using that assms(2,3) by (simp add: b' nth_list_update)
  have len: "length (conns b') = length (conns b)" by (simp add: b')
  show ?thesis
  proof (rule sse_invI)
    have "e < length (conns b)" if "e \<in> set (register b') \<union> set (unregister b')" for e
      using that q(1,2) assms(2) d(1) by (cases "e = c") (auto simp: broker_ok_def)
    then show "broker_ok b'"
      using d(1) id q(3-6) unfolding broker_ok_def ids b'(2,3) len by auto
    show "client_ok b' rel e (conns b' ! e)" if e: "e < length (conns b')" for e
    proof (cases "e = c")
      case True
      then show ?thesis using k assms(2) by (simp add: b')
    next
      case False
      then have "e \<in> set (register b') \<longleftrightarrow> e \<in> set (register b)" "e \<in> set (unregister b') \<longleftrightarrow> e \<in> set (unregister b)"
        using q(1,2) by blast+
      with False show ?thesis using d(2) [of e] e by (simp add: b' client_ok_def mapped_def)
    qed
    show "subseq (rel @ broadcast b') ps" using d(3) by (simp add: b')
  qed
qed

lemma enter_ok:
  assumes "sse_inv (b, rel, ps)" and c: "c < length (conns b)" and g: "clStage (conns b ! c) = Registering"
    and "serve_register c b = Some b'"
  shows "sse_inv (b', rel, ps)"
proof -
  note d = sse_invD(1) [OF assms(1)] and k = sse_invD(2) [OF assms(1) c]
  have b': "b' = set_stage c Streaming (b\<lparr>register := register b @ [c]\<rparr>)" and "length (register b) < 16"
    using assms(4) by (auto simp: serve_register_def split: if_splits)
  then show ?thesis
    using d k g by (intro update_ok [OF assms(1) c, where k = "(conns b ! c)\<lparr>clStage := Streaming\<rparr>"])
      (auto simp: set_stage_def broker_ok_def client_ok_def mapped_def)
qed

lemma receive_ok:
  assumes "sse_inv (b, rel, ps)" and c: "c < length (conns b)" and g: "clStage (conns b ! c) = Streaming"
    and "serve_receive c b = Some b'"
  shows "sse_inv (b', rel, ps)"
proof (cases "clSend (conns b ! c)")
  case Nil
  have "\<not> clClosed (conns b ! c)" using sse_invD(2) [OF assms(1) c] g by (simp add: client_ok_def)
  with Nil assms(4) show ?thesis by (simp add: serve_receive_def)
next
  case (Cons e es)
  note d = sse_invD(1) [OF assms(1)] and k = sse_invD(2) [OF assms(1) c]
  from Cons assms(4) have "b' = b\<lparr>conns := (conns b)[c := (conns b ! c)\<lparr>clSend := es, clWritten := clWritten (conns b ! c) @ [e]\<rparr>]\<rparr>"
    by (simp add: serve_receive_def)
  then show ?thesis
    using d k g Cons
    by (intro update_ok [OF assms(1) c, where k = "(conns b ! c)\<lparr>clSend := es, clWritten := clWritten (conns b ! c) @ [e]\<rparr>"])
      (auto simp: broker_ok_def client_ok_def mapped_def)
qed

lemma disconnect_ok:
  assumes "sse_inv (b, rel, ps)" and c: "c < length (conns b)" and g: "clStage (conns b ! c) = Streaming"
  shows "sse_inv (set_stage c Leaving b, rel, ps)"
  using sse_invD(1) [OF assms(1)] sse_invD(2) [OF assms(1) c] g
  by (intro update_ok [OF assms(1) c, where k = "(conns b ! c)\<lparr>clStage := Leaving\<rparr>"])
    (auto simp: set_stage_def broker_ok_def client_ok_def mapped_def)

lemma leave_ok:
  assumes "sse_inv (b, rel, ps)" and c: "c < length (conns b)" and g: "clStage (conns b ! c) = Leaving"
    and "serve_unregister c b = Some b'"
  shows "sse_inv (b', rel, ps)"
proof -
  note d = sse_invD(1) [OF assms(1)] and k = sse_invD(2) [OF assms(1) c]
  have b': "b' = set_stage c Gone (b\<lparr>unregister := unregister b @ [c]\<rparr>)" and "length (unregister b) < 16"
    using assms(4) by (auto simp: serve_unregister_def split: if_splits)
  then show ?thesis
    using d k g by (intro update_ok [OF assms(1) c, where k = "(conns b ! c)\<lparr>clStage := Gone\<rparr>"])
      (auto simp: set_stage_def broker_ok_def client_ok_def mapped_def)
qed

section \<open>The branches of Run\<close>

lemma register_ok:
  assumes "sse_inv (b, rel, ps)" and "run_register b = Some b'"
  shows "sse_inv (b', rel, ps)"
proof (cases "register b")
  case Nil
  with assms show ?thesis by (simp add: run_register_def)
next
  case (Cons c cs)
  note d = sse_invD [OF assms(1)]
  have c: "c < length (conns b)" "c \<notin> set cs" using d(1) Cons by (auto simp: broker_ok_def)
  have k: "\<not> mapped b c" "\<not> clClosed (conns b ! c)" "clStage (conns b ! c) \<noteq> Registering"
    using d(2) [OF c(1)] Cons by (auto simp: client_ok_def)
  have b': "b' = b\<lparr>register := cs, clients := AList.update (clID (conns b ! c)) c (clients b)\<rparr>"
    using assms(2) Cons by (simp add: run_register_def)
  have kd: "keys_distinct (clients b)" using d(1) by (simp add: broker_ok_def)
  have entry: "e < length (conns b) \<and> i = clID (conns b ! e)" if "(i, e) \<in> set (clients b')" for i e
  proof -
    have "keys_distinct (clients b')" using kd by (simp add: b')
    with that have "map_of (clients b') i = Some e" by (simp add: map_of_in_set)
    then have "i = clID (conns b ! c) \<and> e = c \<or> (i, e) \<in> set (clients b)"
      by (auto simp: b' map_of_in_set [OF kd] split: if_splits)
    with c(1) d(1) show ?thesis by (auto simp: broker_ok_def)
  qed
  have bok: "broker_ok b'"
    using d(1) Cons entry by (auto simp: broker_ok_def b')
  have m: "mapped b' e \<longleftrightarrow> e = c \<or> mapped b e" if "e < length (conns b)" for e
    using that mapped_iff(1) [OF bok, of e] mapped_iff(1) [OF d(1) that] conns_inj [OF d(1) that c(1)]
    by (auto simp: b')
  show ?thesis
  proof (rule sse_invI [OF bok])
    show "client_ok b' rel e (conns b' ! e)" if e: "e < length (conns b')" for e
    proof -
      have "e < length (conns b)" using e by (simp add: b')
      note e = this and old = d(2) [OF this] and me = m [OF this]
      show ?thesis
      proof (cases "e = c")
        case True
        then show ?thesis using old k c(2) me Cons unfolding client_ok_def b' by simp
      next
        case False
        then show ?thesis using old me Cons unfolding client_ok_def b' by simp
      qed
    qed
  qed (use d(3) in \<open>simp add: b'\<close>)
qed

lemma unregister_open:
  assumes "sse_inv (b, rel, ps)" and "unregister b = c # cs"
  shows "c < length (conns b)" and "\<not> clClosed (conns b ! c)" and "c \<notin> set cs"
    and "map_of (clients b) (clID (conns b ! c)) = Some e \<Longrightarrow> e = c \<and> mapped b c"
proof -
  note d = sse_invD [OF assms(1)]
  show c: "c < length (conns b)" and "c \<notin> set cs" using d(1) assms(2) by (auto simp: broker_ok_def)
  show "\<not> clClosed (conns b ! c)" using d(2) [OF c] assms(2) by (simp add: client_ok_def)
  show "e = c \<and> mapped b c" if "map_of (clients b) (clID (conns b ! c)) = Some e"
    using mapped_iff [OF d(1) c] that by simp
qed

lemma unregister_ok:
  assumes "sse_inv (b, rel, ps)" and "run_unregister b = Some b'"
  shows "sse_inv (b', rel, ps)"
proof (cases "unregister b")
  case Nil
  with assms show ?thesis by (simp add: run_unregister_def)
next
  case (Cons c cs)
  note d = sse_invD [OF assms(1)] and o = unregister_open [OF assms(1) Cons]
  have stage: "clStage (conns b ! c) = Gone" using d(2) [OF o(1)] Cons by (simp add: client_ok_def)
  let ?i = "clID (conns b ! c)"
  have uq: "set (unregister b) = insert c (set cs)" "set (unregister b) - {c} = set cs" using Cons o(3) by auto
  show ?thesis
  proof (cases "map_of (clients b) ?i")
    case None
    then have "b' = b\<lparr>unregister := cs\<rparr>" using assms(2) Cons by (simp add: run_unregister_def Let_def)
    moreover have "sse_inv (b\<lparr>unregister := cs\<rparr>, rel, ps)"
    proof (rule sse_invI)
      show "broker_ok (b\<lparr>unregister := cs\<rparr>)" using d(1) Cons by (auto simp: broker_ok_def)
      show "client_ok (b\<lparr>unregister := cs\<rparr>) rel e (conns (b\<lparr>unregister := cs\<rparr>) ! e)"
        if "e < length (conns (b\<lparr>unregister := cs\<rparr>))" for e
        using d(2) [of e] that uq(1) by (simp add: client_ok_def mapped_def)
    qed (use d(3) in simp)
    ultimately show ?thesis by simp
  next
    case (Some e)
    then have e: "map_of (clients b) ?i = Some c" "mapped b c" using o(4) by auto
    let ?k = "(conns b ! c)\<lparr>clClosed := True\<rparr>"
    have b': "b' = b\<lparr>unregister := cs, clients := AList.delete ?i (clients b), conns := (conns b)[c := ?k]\<rparr>"
      using assms(2) Cons e(1) o(2) by (simp add: run_unregister_def close_send_def Let_def)
    have kd: "keys_distinct (clients b)" using d(1) by (simp add: broker_ok_def)
    have ids: "map clID (conns b') = map clID (conns b)"
      using o(1) by (simp add: b' map_update list_update_same_conv)
    have id: "clID (conns b' ! x) = clID (conns b ! x)" if "x < length (conns b)" for x
      using that o(1) by (simp add: b' nth_list_update)
    have entry: "x < length (conns b') \<and> i = clID (conns b' ! x)" if "(i, x) \<in> set (clients b')" for i x
    proof -
      have "keys_distinct (clients b')" using kd by (simp add: b')
      with that have "map_of (clients b') i = Some x" by (simp add: map_of_in_set)
      then have "(i, x) \<in> set (clients b)" by (auto simp: b' map_of_in_set [OF kd] split: if_splits)
      then have "x < length (conns b) \<and> i = clID (conns b ! x)" using d(1) by (auto simp: broker_ok_def)
      then show ?thesis using id by (simp add: b')
    qed
    have bok: "broker_ok b'"
      unfolding broker_ok_def ids using d(1) Cons entry by (auto simp: broker_ok_def b')
    have m: "mapped b' x \<longleftrightarrow> x \<noteq> c \<and> mapped b x" if "x < length (conns b)" for x
      using that mapped_iff(1) [OF bok, of x] mapped_iff(1) [OF d(1) that] conns_inj [OF d(1) that o(1)] id [OF that]
      by (auto simp: b')
    show ?thesis
    proof (rule sse_invI [OF bok])
      show "client_ok b' rel x (conns b' ! x)" if x: "x < length (conns b')" for x
      proof -
        have "x < length (conns b)" using x by (simp add: b')
        note x = this and old = d(2) [OF this] and mx = m [OF this]
        show ?thesis
        proof (cases "x = c")
          case True
          have "c \<notin> set (register b)" using d(2) [OF o(1)] e(2) by (auto simp: client_ok_def)
          with True show ?thesis using old mx o(1,3) stage unfolding client_ok_def b' by simp
        next
          case False
          then show ?thesis using old mx uq(1) unfolding client_ok_def b' by simp
        qed
      qed
    qed (use d(3) in \<open>simp add: b'\<close>)
  qed
qed

text \<open>What one event does to the clients it is offered to.\<close>

definition offered :: "Event \<Rightarrow> client \<Rightarrow> client" where
  "offered e k = (if length (clSend k) < 64 then k\<lparr>clSend := clSend k @ [e]\<rparr> else k)"

lemma send_all_offers:
  assumes "distinct ds" and "\<And>c. c \<in> set ds \<Longrightarrow> c < length cs \<and> \<not> clClosed (cs ! c)"
  shows "\<exists>cs'. send_all e ds cs = Some cs' \<and> length cs' = length cs \<and>
    (\<forall>c < length cs. cs' ! c = (if c \<in> set ds then offered e (cs ! c) else cs ! c))"
  using assms
proof (induction ds arbitrary: cs)
  case (Cons d ds)
  let ?cs = "cs[d := offered e (cs ! d)]"
  have dd: "d < length cs" "\<not> clClosed (cs ! d)" using Cons.prems(2) by auto
  have one: "try_send e d cs = Some ?cs"
    using dd by (simp add: try_send_def offered_def)
  have "c < length ?cs \<and> \<not> clClosed (?cs ! c)" if "c \<in> set ds" for c
    using that Cons.prems by (auto simp: nth_list_update)
  from Cons.IH [OF _ this] Cons.prems(1) obtain cs' where "send_all e ds ?cs = Some cs'" "length cs' = length cs"
    "\<forall>c < length cs. cs' ! c = (if c \<in> set ds then offered e (?cs ! c) else ?cs ! c)" by auto
  then show ?case using one Cons.prems(1) dd by (auto simp: nth_list_update)
qed simp

lemma run_broadcast_offers:
  assumes "sse_inv (b, rel, ps)" and "broadcast b = e # es"
  shows "\<exists>cs. run_broadcast rank b = Some (b\<lparr>broadcast := es, conns := cs\<rparr>) \<and> length cs = length (conns b) \<and>
    (\<forall>c < length (conns b). cs ! c = (if mapped b c then offered e (conns b ! c) else conns b ! c))"
proof -
  note d = sse_invD [OF assms(1)]
  let ?ds = "visit rank (map snd (clients b))"
  have kd: "keys_distinct (clients b)" using d(1) by (simp add: broker_ok_def)
  have ent: "\<And>i c. (i, c) \<in> set (clients b) \<Longrightarrow> c < length (conns b) \<and> i = clID (conns b ! c)"
    using d(1) by (auto simp: broker_ok_def)
  have "distinct (map snd (clients b))"
  proof -
    have "distinct (clients b)" using kd by (simp add: keys_distinct_def distinct_map)
    moreover have "inj_on snd (set (clients b))" by (rule inj_onI) (metis ent prod.collapse)
    ultimately show ?thesis by (simp add: distinct_map)
  qed
  then have dist: "distinct ?ds" by (metis mset_eq_imp_distinct_iff mset_visit)
  have open_: "c < length (conns b) \<and> \<not> clClosed (conns b ! c)" if "c \<in> set ?ds" for c
  proof -
    have m: "mapped b c" using that by (simp add: mapped_def)
    have c: "c < length (conns b)" using that ent by auto
    from d(2) [OF c] m show ?thesis using c by (auto simp: client_ok_def)
  qed
  obtain cs where "send_all e ?ds (conns b) = Some cs" "length cs = length (conns b)"
    "\<forall>c < length (conns b). cs ! c = (if c \<in> set ?ds then offered e (conns b ! c) else conns b ! c)"
    using send_all_offers [OF dist open_, of e] by blast
  then show ?thesis using assms(2) by (intro exI [of _ cs]) (simp add: run_broadcast_def mapped_def)
qed

lemma run_broadcast_ok:
  assumes "sse_inv (b, rel, ps)" and e: "broadcast b = e # es" and "run_broadcast rank b = Some b'"
  shows "sse_inv (b', rel @ [e], ps)"
proof -
  note d = sse_invD [OF assms(1)]
  obtain cs where b': "b' = b\<lparr>broadcast := es, conns := cs\<rparr>" and len: "length cs = length (conns b)"
    and cs: "\<And>c. c < length (conns b) \<Longrightarrow> cs ! c = (if mapped b c then offered e (conns b ! c) else conns b ! c)"
    using run_broadcast_offers [OF assms(1) e, of rank] assms(3) by auto
  have id: "clID (cs ! c) = clID (conns b ! c)" if "c < length (conns b)" for c
    using cs [OF that] by (simp add: offered_def)
  then have ids: "map clID cs = map clID (conns b)" using len by (auto intro: nth_equalityI)
  show ?thesis
  proof (rule sse_invI)
    have "c < length (conns b') \<and> i = clID (conns b' ! c)" if "(i, c) \<in> set (clients b')" for i c
      using that d(1) id len by (auto simp: b' broker_ok_def)
    then show "broker_ok b'" using d(1) e ids len unfolding broker_ok_def by (auto simp: b')
    show "client_ok b' (rel @ [e]) c (conns b' ! c)" if c: "c < length (conns b')" for c
    proof -
      have c: "c < length (conns b)" using c len by (simp add: b')
      have "client_ok b (rel @ [e]) c (cs ! c)"
      proof (cases "mapped b c \<and> length (clSend (conns b ! c)) < 64")
        case True
        then have "cs ! c = (conns b ! c)\<lparr>clSend := clSend (conns b ! c) @ [e]\<rparr>" using cs [OF c] by (simp add: offered_def)
        then show ?thesis using d(2) [OF c] True subseq_snocI [of "clWritten (conns b ! c) @ clSend (conns b ! c)" rel e]
          by (simp add: client_ok_def)
      next
        case False
        then have "cs ! c = conns b ! c" using cs [OF c] by (auto simp: offered_def)
        then show ?thesis using client_ok_more [OF d(2) [OF c]] subseq_extendI [of rel rel "[e]"] by simp
      qed
      then show ?thesis by (simp add: b' client_ok_def mapped_def)
    qed
    show "subseq ((rel @ [e]) @ broadcast b') ps" using d(3) e by (simp add: b')
  qed
qed

lemma sse_step_inv: "sse_step s t \<Longrightarrow> sse_inv s \<Longrightarrow> sse_inv t"
proof (induction rule: sse_step.induct)
  case (ss_done b rel ps)
  have "broker_ok (b\<lparr>running := False\<rparr>) = broker_ok b" by (simp add: broker_ok_def)
  moreover have "client_ok (b\<lparr>running := False\<rparr>) rel c k = client_ok b rel c k" for c k
    by (rule client_ok_cong) simp_all
  ultimately show ?case using ss_done by (simp add: sse_inv_def)
qed (unfold run_heartbeat_def, (rule broadcast_ok register_ok unregister_ok run_broadcast_ok start_ok enter_ok
    receive_ok disconnect_ok leave_ok; assumption)+)

lemma sse_init_inv: "sse_init s \<Longrightarrow> sse_inv s"
  by (simp add: sse_init_def sse_inv_def NewBroker_def broker_ok_def)

interpretation sse_sys: invariant_system sse_init sse_step sse_inv
  by unfold_locales (rule sse_init_inv, assumption, rule sse_step_inv)

section \<open>Clients that are never released\<close>

definition ghost :: "nat \<Rightarrow> Broker \<Rightarrow> bool" where
  "ghost c b \<longleftrightarrow> c < length (conns b) \<and> mapped b c \<and> c \<notin> set (unregister b) \<and> clStage (conns b ! c) = Gone"

lemma ghost_conns:
  assumes "ghost c b" and "clients b' = clients b" and "\<exists>k. conns b' = (conns b)[d := k]" and "c \<noteq> d"
    and "set (unregister b') \<subseteq> insert d (set (unregister b))"
  shows "ghost c b'"
  using assms by (auto simp: ghost_def mapped_def)

lemma ghost_stays:
  assumes "sse_inv (b, rel, ps)" and "ghost c b"
  shows "serve_register d b = Some b' \<Longrightarrow> clStage (conns b ! d) \<noteq> Gone \<Longrightarrow> ghost c b'"
    and "serve_unregister d b = Some b' \<Longrightarrow> clStage (conns b ! d) \<noteq> Gone \<Longrightarrow> ghost c b'"
    and "serve_receive d b = Some b' \<Longrightarrow> clStage (conns b ! d) \<noteq> Gone \<Longrightarrow> ghost c b'"
    and "clStage (conns b ! d) \<noteq> Gone \<Longrightarrow> ghost c (set_stage d Leaving b)"
proof -
  have "c \<noteq> d" if "clStage (conns b ! d) \<noteq> Gone" for d using assms(2) that by (auto simp: ghost_def)
  note ne = this and g = ghost_conns [OF assms(2)]
  show "ghost c b'" if "serve_register d b = Some b'" "clStage (conns b ! d) \<noteq> Gone"
    using that(1) ne [OF that(2)] by (intro g [where d = d]) (auto simp: serve_register_def set_stage_def split: if_splits)
  show "ghost c b'" if "serve_unregister d b = Some b'" "clStage (conns b ! d) \<noteq> Gone"
    using that(1) ne [OF that(2)] by (intro g [where d = d]) (auto simp: serve_unregister_def set_stage_def split: if_splits)
  show "ghost c b'" if "serve_receive d b = Some b'" "clStage (conns b ! d) \<noteq> Gone"
    using that(1) ne [OF that(2)]
    by (intro g [where d = d]) (auto simp: serve_receive_def set_stage_def split: if_splits list.splits)
  show "ghost c (set_stage d Leaving b)" if "clStage (conns b ! d) \<noteq> Gone"
    using ne [OF that] by (intro g [where d = d]) (auto simp: set_stage_def)
qed

lemma ghost_run:
  assumes inv: "sse_inv (b, rel, ps)" and g: "ghost c b"
  shows "run_register b = Some b' \<Longrightarrow> ghost c b'" and "run_unregister b = Some b' \<Longrightarrow> ghost c b'"
proof -
  note d = sse_invD [OF inv]
  have c: "c < length (conns b)" and m: "map_of (clients b) (clID (conns b ! c)) = Some c"
    using g mapped_iff(1) [OF d(1), of c] by (auto simp: ghost_def)
  show "ghost c b'" if r: "run_register b = Some b'"
  proof (cases "register b")
    case (Cons e es)
    have e: "e < length (conns b)" "\<not> mapped b e" using d Cons by (auto simp: broker_ok_def client_ok_def)
    then have "clID (conns b ! e) \<noteq> clID (conns b ! c)" using g conns_inj [OF d(1) e(1) c] by (auto simp: ghost_def)
    then have "map_of (clients b') (clID (conns b' ! c)) = Some c"
      using r Cons m by (auto simp: run_register_def)
    moreover have "broker_ok b'" "c < length (conns b')" using register_ok [OF inv r] r Cons c
      by (auto simp: sse_inv_def run_register_def)
    ultimately have "mapped b' c" by (simp add: mapped_iff(1))
    then show ?thesis using g r Cons by (auto simp: ghost_def run_register_def)
  qed (use r g in \<open>simp add: run_register_def\<close>)
  show "ghost c b'" if r: "run_unregister b = Some b'"
  proof (cases "unregister b")
    case (Cons e es)
    note o = unregister_open [OF inv Cons]
    have ne: "e \<noteq> c" using g Cons by (auto simp: ghost_def)
    then have "clID (conns b ! e) \<noteq> clID (conns b ! c)" using conns_inj [OF d(1) o(1) c] by blast
    then have "map_of (clients b') (clID (conns b' ! c)) = Some c"
      using r Cons m ne o(1,2) by (auto simp: run_unregister_def close_send_def Let_def split: option.splits)
    moreover have "broker_ok b'" "c < length (conns b')" using unregister_ok [OF inv r] r Cons c o(2)
      by (auto simp: sse_inv_def run_unregister_def close_send_def Let_def split: option.splits)
    ultimately have "mapped b' c" by (simp add: mapped_iff(1))
    then show ?thesis using g r Cons ne o(2)
      by (auto simp: ghost_def run_unregister_def close_send_def Let_def split: option.splits)
  qed (use r g in \<open>simp add: run_unregister_def\<close>)
qed

lemma ghost_step: "sse_step s t \<Longrightarrow> sse_inv s \<Longrightarrow> ghost c (fst s) \<Longrightarrow> ghost c (fst t)"
proof (induction rule: sse_step.induct)
  case (ss_broadcast b e es rank b' rel ps)
  from run_broadcast_offers [OF ss_broadcast(4,2), of rank] ss_broadcast(3) obtain cs
    where "b' = b\<lparr>broadcast := es, conns := cs\<rparr>" "length cs = length (conns b)"
      "\<forall>c < length (conns b). cs ! c = (if mapped b c then offered e (conns b ! c) else conns b ! c)" by auto
  then show ?case using ss_broadcast(5) by (auto simp: ghost_def mapped_def offered_def)
next
  case (ss_register b b' rel ps)
  then show ?case using ghost_run(1) by simp
next
  case (ss_unregister b b' rel ps)
  then show ?case using ghost_run(2) by simp
next
  case (ss_enter d b b' rel ps)
  then show ?case using ghost_stays(1) by simp
next
  case (ss_receive d b b' rel ps)
  then show ?case using ghost_stays(3) by simp
next
  case (ss_disconnect d b rel ps)
  then show ?case using ghost_stays(4) by simp
next
  case (ss_leave d b b' rel ps)
  then show ?case using ghost_stays(2) by simp
qed (auto simp: ghost_def mapped_def Broadcast_def run_heartbeat_def serve_start_def nth_append)

lemma ghost_steps: "sse_step\<^sup>*\<^sup>* s t \<Longrightarrow> sse_inv s \<Longrightarrow> ghost c (fst s) \<Longrightarrow> ghost c (fst t)"
  by (induction rule: rtranclp_induct) (auto intro: ghost_step sse_sys.inv_steps)

section \<open>Properties\<close>

text \<open>A broker with one streaming client and one event under way.\<close>

definition one_client :: Broker where
  "one_client = \<lparr>clients = [(''a'', 0)], broadcast = [heartbeat], register = [], unregister = [], running = True,
     conns = [\<lparr>clID = ''a'', clSend = [], clClosed = False, clStage = Streaming, clWritten = []\<rparr>]\<rparr>"

lemma reach_one_client: "reach sse_init sse_step (one_client, [], [heartbeat])"
proof -
  let ?k = "\<lambda>g. \<lparr>clID = ''a'', clSend = [], clClosed = False, clStage = g, clWritten = []\<rparr>"
  let ?b1 = "NewBroker\<lparr>conns := [?k Registering]\<rparr>" and ?b2 = "NewBroker\<lparr>conns := [?k Streaming], register := [0]\<rparr>"
  let ?b3 = "NewBroker\<lparr>conns := [?k Streaming], clients := [(''a'', 0)]\<rparr>"
  have "reach sse_init sse_step (NewBroker, [], [])" by (rule reach_init) (simp add: sse_init_def)
  moreover have "sse_step (NewBroker, [], []) (?b1, [], [])"
    using ss_start [of "''a''" NewBroker "[]" "[]" True] by (simp add: serve_start_def NewBroker_def)
  ultimately have "reach sse_init sse_step (?b1, [], [])" by (rule reach_step)
  moreover have "sse_step (?b1, [], []) (?b2, [], [])"
    by (rule ss_enter [of 0]) (simp_all add: serve_register_def set_stage_def NewBroker_def)
  ultimately have "reach sse_init sse_step (?b2, [], [])" by (rule reach_step)
  moreover have "sse_step (?b2, [], []) (?b3, [], [])"
    by (rule ss_register) (simp_all add: run_register_def NewBroker_def)
  ultimately have "reach sse_init sse_step (?b3, [], [])" by (rule reach_step)
  moreover have "sse_step (?b3, [], []) (one_client, [], [heartbeat])"
    using ss_heartbeat [of ?b3 "[]" "[]"] by (simp add: run_heartbeat_def Broadcast_def NewBroker_def one_client_def)
  ultimately show ?thesis by (rule reach_step)
qed

text \<open>
  C26: whatever the interleaving of posts, connections, disconnections and the loop, no branch
  of \<open>Run\<close> panics: it never closes a channel twice and never sends on a closed one, and so the
  loop never blocks or dies on a client.
\<close>

theorem broker_never_panics:
  assumes "reach sse_init sse_step (b, rel, ps)"
  shows "run_register b \<noteq> None \<and> run_unregister b \<noteq> None \<and> run_broadcast rank b \<noteq> None"
proof -
  have inv: "sse_inv (b, rel, ps)" by (rule sse_sys.inv_reach [OF assms])
  have "run_register b \<noteq> None" by (simp add: run_register_def split: list.split)
  moreover have "run_unregister b \<noteq> None"
    using unregister_open [OF inv] by (auto simp: run_unregister_def close_send_def Let_def split: list.split option.split)
  moreover have "run_broadcast rank b \<noteq> None"
  proof (cases "broadcast b")
    case (Cons e es)
    from run_broadcast_offers [OF inv this, of rank] show ?thesis by auto
  qed (simp add: run_broadcast_def)
  ultimately show ?thesis by blast
qed

lemma broker_never_panics_witness: "run_broadcast (\<lambda>_. 0) one_client \<noteq> None"
  using broker_never_panics [OF reach_one_client] by blast

text \<open>
  C27: what a client gets. In every reachable state the events written to a connection, followed
  by those in its channel, are a subsequence of the events posted, in the order they were
  posted; the channel holds at most 64 of them and the broker's queue at most 256.
\<close>

theorem clients_see_posted_order:
  assumes "reach sse_init sse_step (b, rel, ps)" and "k \<in> set (conns b)"
  shows "subseq (clWritten k @ clSend k) ps \<and> length (clSend k) \<le> 64 \<and> length (broadcast b) \<le> 256"
proof -
  have inv: "sse_inv (b, rel, ps)" by (rule sse_sys.inv_reach [OF assms(1)])
  note d = sse_invD [OF inv]
  obtain c where "c < length (conns b)" "k = conns b ! c" using assms(2) by (auto simp: in_set_conv_nth)
  then have "subseq (clWritten k @ clSend k) rel" "length (clSend k) \<le> 64" using d(2) by (auto simp: client_ok_def)
  moreover have "subseq rel ps" using d(3) by (metis list_emb_append_mono list_emb_Nil append.right_neutral subseq_order.order_refl subseq_order.trans)
  ultimately show ?thesis using d(1) subseq_order.trans by (auto simp: broker_ok_def)
qed

lemma clients_see_posted_order_witness: "subseq (clWritten (hd (conns one_client))) [heartbeat]"
proof -
  have "hd (conns one_client) \<in> set (conns one_client)" by (simp add: one_client_def)
  from clients_see_posted_order [OF reach_one_client this] show ?thesis by (simp add: one_client_def)
qed

text \<open>
  C28: relaying one event. Every registered client with room in its channel has the event
  appended to it, every other connection is left as it is, in whatever order the map of
  clients is visited, and the event leaves the queue.
\<close>

theorem relay_offers_every_client:
  assumes "reach sse_init sse_step (b, rel, ps)" and "broadcast b = e # es"
  shows "\<exists>cs. run_broadcast rank b = Some (b\<lparr>broadcast := es, conns := cs\<rparr>) \<and> length cs = length (conns b) \<and>
    (\<forall>c < length (conns b). cs ! c =
       (if mapped b c \<and> length (clSend (conns b ! c)) < 64
        then (conns b ! c)\<lparr>clSend := clSend (conns b ! c) @ [e]\<rparr> else conns b ! c))"
  using run_broadcast_offers [OF sse_sys.inv_reach [OF assms(1)] assms(2), of rank]
  by (fastforce simp: offered_def)

lemma relay_offers_every_client_witness:
  "\<exists>b'. run_broadcast (\<lambda>_. 0) one_client = Some b' \<and> clSend (conns b' ! 0) = [heartbeat]"
proof -
  have "broadcast one_client = heartbeat # []" by (simp add: one_client_def)
  from relay_offers_every_client [OF reach_one_client this, of "\<lambda>_. 0"] show ?thesis
    by (force simp: one_client_def mapped_def)
qed

text \<open>
  C29: a client that leaves before the loop has taken its registration is kept for ever. Both
  messages wait, \<open>select\<close> may take the second first, and ignores it; the registration that
  follows puts into the map a client whose handler is gone, and nothing removes it any more.
\<close>

theorem early_leaver_kept_forever:
  "\<exists>s. reach sse_init sse_step s \<and> ClientCount (fst s) = 1 \<and>
     \<not> (\<exists>k \<in> set (conns (fst s)). clStage k \<noteq> Gone) \<and> register (fst s) = [] \<and> unregister (fst s) = [] \<and>
     \<not> (\<exists>t. sse_step\<^sup>*\<^sup>* s t \<and> ClientCount (fst t) = 0)"
proof -
  let ?k = "\<lambda>g. \<lparr>clID = ''a'', clSend = [], clClosed = False, clStage = g, clWritten = []\<rparr>"
  let ?b1 = "NewBroker\<lparr>conns := [?k Registering]\<rparr>" and ?b2 = "NewBroker\<lparr>conns := [?k Streaming], register := [0]\<rparr>"
  let ?b3 = "NewBroker\<lparr>conns := [?k Leaving], register := [0]\<rparr>"
  let ?b4 = "NewBroker\<lparr>conns := [?k Gone], register := [0], unregister := [0]\<rparr>"
  let ?b5 = "NewBroker\<lparr>conns := [?k Gone], register := [0]\<rparr>"
  let ?b6 = "NewBroker\<lparr>conns := [?k Gone], clients := [(''a'', 0)]\<rparr>"
  have "reach sse_init sse_step (NewBroker, [], [])" by (rule reach_init) (simp add: sse_init_def)
  moreover have "sse_step (NewBroker, [], []) (?b1, [], [])"
    using ss_start [of "''a''" NewBroker "[]" "[]" True] by (simp add: serve_start_def NewBroker_def)
  ultimately have "reach sse_init sse_step (?b1, [], [])" by (rule reach_step)
  moreover have "sse_step (?b1, [], []) (?b2, [], [])"
    by (rule ss_enter [of 0]) (simp_all add: serve_register_def set_stage_def NewBroker_def)
  ultimately have "reach sse_init sse_step (?b2, [], [])" by (rule reach_step)
  moreover have "sse_step (?b2, [], []) (?b3, [], [])"
    using ss_disconnect [of 0 ?b2 "[]" "[]"] by (simp add: set_stage_def NewBroker_def)
  ultimately have "reach sse_init sse_step (?b3, [], [])" by (rule reach_step)
  moreover have "sse_step (?b3, [], []) (?b4, [], [])"
    by (rule ss_leave [of 0]) (simp_all add: serve_unregister_def set_stage_def NewBroker_def)
  ultimately have "reach sse_init sse_step (?b4, [], [])" by (rule reach_step)
  moreover have "sse_step (?b4, [], []) (?b5, [], [])"
    by (rule ss_unregister) (simp_all add: run_unregister_def NewBroker_def Let_def)
  ultimately have "reach sse_init sse_step (?b5, [], [])" by (rule reach_step)
  moreover have "sse_step (?b5, [], []) (?b6, [], [])"
    by (rule ss_register) (simp_all add: run_register_def NewBroker_def)
  ultimately have r: "reach sse_init sse_step (?b6, [], [])" by (rule reach_step)
  have g: "ghost 0 ?b6" by (simp add: ghost_def mapped_def NewBroker_def)
  have "ClientCount (fst t) \<noteq> 0" if "sse_step\<^sup>*\<^sup>* (?b6, [], []) t" for t
    using ghost_steps [OF that sse_sys.inv_reach [OF r]] g by (auto simp: ghost_def mapped_def ClientCount_def)
  then show ?thesis using r by (intro exI [of _ "(?b6, [], [])"]) (auto simp: NewBroker_def ClientCount_def)
qed

text \<open>The channels that are closed, and whether the loop runs: after the end of \<open>Run\<close> neither changes.\<close>

lemma stopped_step:
  "sse_step s t \<Longrightarrow> \<not> running (fst s) \<Longrightarrow> \<not> running (fst t) \<and> length (conns (fst s)) \<le> length (conns (fst t)) \<and>
     (\<forall>c < length (conns (fst s)). clClosed (conns (fst t) ! c) = clClosed (conns (fst s) ! c))"
proof (induction rule: sse_step.induct)
  case (ss_receive c b b' rel ps)
  then show ?case
    by (auto simp: serve_receive_def set_stage_def nth_list_update split: list.splits if_splits)
qed (auto simp: Broadcast_def serve_start_def serve_register_def serve_unregister_def set_stage_def nth_append nth_list_update
    split: if_splits)

lemma stopped_steps:
  assumes "sse_step\<^sup>*\<^sup>* s t" and "\<not> running (fst s)" and "c < length (conns (fst s))" and "\<not> clClosed (conns (fst s) ! c)"
  shows "\<not> running (fst t) \<and> c < length (conns (fst t)) \<and> \<not> clClosed (conns (fst t) ! c)"
  using assms by (induction rule: rtranclp_induct) (auto dest!: stopped_step)

text \<open>
  C39: shutting down. Once \<open>Run\<close> has ended, as it does when the server stops, no channel of a
  client is closed any more: whatever happens afterwards, the handler of a stream that was open keeps it open
  until its client leaves, for receiving from its channel never ends the loop.
\<close>

theorem open_streams_outlive_broker:
  assumes "reach sse_init sse_step (b, rel, ps)" and "c < length (conns b)" and "clStage (conns b ! c) = Streaming"
    and "sse_step\<^sup>*\<^sup>* (b\<lparr>running := False\<rparr>, rel, ps) (b', rel', ps')"
  shows "\<not> (\<exists>b''. serve_receive c b' = Some b'' \<and> clStage (conns b'' ! c) \<noteq> clStage (conns b' ! c))"
proof -
  have "\<not> clClosed (conns b ! c)"
    using sse_invD(2) [OF sse_sys.inv_reach [OF assms(1)] assms(2)] assms(3) by (simp add: client_ok_def)
  then have "c < length (conns b')" "\<not> clClosed (conns b' ! c)"
    using stopped_steps [OF assms(4), of c] assms(2) by simp_all
  then show ?thesis by (auto simp: serve_receive_def split: list.splits)
qed

lemma open_streams_outlive_broker_witness:
  "\<not> (\<exists>b''. serve_receive 0 (one_client\<lparr>running := False\<rparr>) = Some b'' \<and>
     clStage (conns b'' ! 0) \<noteq> clStage (conns (one_client\<lparr>running := False\<rparr>) ! 0))"
  by (rule open_streams_outlive_broker [OF reach_one_client _ _ rtranclp.rtrancl_refl]) (simp_all add: one_client_def)

section \<open>The wire format\<close>

text \<open>
  How a browser reads an event stream (HTML standard, section 9.2.6): lines end with LF, CR, or CR LF, and an unfinished
  last line is dropped; a line is a field and its value after the first colon and one optional space; a blank line
  dispatches an event, with the data collected so far, if there is a \<open>data\<close> line.
\<close>

definition is_lf :: "char \<Rightarrow> bool" where "is_lf c \<longleftrightarrow> c = CHR 0x0A"

definition is_cr :: "char \<Rightarrow> bool" where "is_cr c \<longleftrightarrow> c = CHR 0x0D"

definition skip_lf :: "string \<Rightarrow> string" where
  "skip_lf s = (if s \<noteq> [] \<and> is_lf (hd s) then tl s else s)"

lemma skip_lf_shorter [termination_simp]: "length (skip_lf s) < Suc (length s)"
  by (cases s) (auto simp: skip_lf_def)

fun stream_lines :: "string \<Rightarrow> string \<Rightarrow> string list" where
  "stream_lines line [] = []"
| "stream_lines line (c # cs) =
     (if is_lf c then line # stream_lines [] cs
      else if is_cr c then line # stream_lines [] (skip_lf cs)
      else stream_lines (line @ [c]) cs)"

definition strip_space :: "string \<Rightarrow> string" where
  "strip_space v = (if v \<noteq> [] \<and> hd v = CHR '' '' then tl v else v)"

definition field_of :: "string \<Rightarrow> string \<times> string" where
  "field_of line = (let f = takeWhile (\<lambda>c. c \<noteq> CHR '':'') line in (f, strip_space (drop (Suc (length f)) line)))"

fun dispatch :: "string list \<Rightarrow> string \<Rightarrow> string \<Rightarrow> Event list" where
  "dispatch [] t d = []"
| "dispatch (line # ls) t d =
     (if line = [] then
        (if d = [] then dispatch ls [] []
         else \<lparr>evType = (if t = [] then ''message'' else t), evData = butlast d\<rparr> # dispatch ls [] [])
      else case field_of line of (f, v) \<Rightarrow>
        if f = ''event'' then dispatch ls v d
        else if f = ''data'' then dispatch ls t (d @ v @ [CHR 0x0A])
        else dispatch ls t d)"

definition browser_events :: "string \<Rightarrow> Event list" where
  "browser_events body = dispatch (stream_lines [] body) [] []"

definition one_line :: "string \<Rightarrow> bool" where
  "one_line x \<longleftrightarrow> (\<forall>c \<in> set x. \<not> is_lf c \<and> \<not> is_cr c)"

lemma stream_lines_line: "one_line x \<Longrightarrow> stream_lines l (x @ nl @ r) = (l @ x) # stream_lines [] r"
  by (induction x arbitrary: l) (auto simp: one_line_def nl_def is_lf_def)

declare stream_lines.simps(2) [simp del]

lemma frame_lines:
  assumes "one_line (evType e)" and "one_line (evData e)"
  shows "stream_lines [] (frame e @ r) = (''event: '' @ evType e) # (''data: '' @ evData e) # [] # stream_lines [] r"
proof -
  have "one_line (''event: '' @ evType e)" "one_line (''data: '' @ evData e)" "one_line []"
    using assms by (auto simp: one_line_def is_lf_def is_cr_def)
  note lines = this [THEN stream_lines_line, where l = "[]"]
  show ?thesis
    using lines(1) [of "''data: '' @ evData e @ nl @ nl @ r"] lines(2) [of "nl @ r"] lines(3) [of r] by (simp add: frame_def)
qed

lemma frame_fields:
  "field_of (''event: '' @ x) = (''event'', x)" "field_of (''data: '' @ x) = (''data'', x)"
  by (simp_all add: field_of_def strip_space_def Let_def)

text \<open>
  C30: a browser reads off the body of a stream exactly the events that were written, in order: it dispatches one for
  each, with its type and its data, as long as neither has a line break, which the JSON encoder and the types used
  guarantee.
\<close>

theorem stream_decodable:
  assumes "\<forall>e \<in> set (clWritten k). one_line (evType e) \<and> one_line (evData e) \<and> evType e \<noteq> []"
  shows "browser_events (response_body k) = clWritten k"
proof -
  have "dispatch (stream_lines [] (concat (map frame es))) [] [] = es"
    if "\<forall>e \<in> set es. one_line (evType e) \<and> one_line (evData e) \<and> evType e \<noteq> []" for es
    using that
  proof (induction es)
    case (Cons e es)
    then show ?case by (simp add: frame_lines frame_fields del: append_Cons)
  qed simp
  with assms show ?thesis by (simp add: browser_events_def response_body_def)
qed

definition served_client :: client where
  "served_client = \<lparr>clID = ''a'', clSend = [], clClosed = False, clStage = Streaming,
     clWritten = [\<lparr>evType = ''alert'', evData = ''{:}''\<rparr>, heartbeat]\<rparr>"

lemma stream_decodable_witness: "browser_events (response_body served_client) = [\<lparr>evType = ''alert'', evData = ''{:}''\<rparr>, heartbeat]"
  using stream_decodable [of served_client] by (simp add: served_client_def heartbeat_def one_line_def is_lf_def is_cr_def)

end
