(* ===== verification/Security_Props.thy ===== *)
theory Security_Props
  imports Security
begin

text \<open>
  The authentication log: what a line of a failed login is parsed to, and who controls it;
  polling a growing file against reading it at once; restarts; the search that ignores case.
\<close>

section \<open>The pieces of a line\<close>

definition all_digits :: "string \<Rightarrow> bool" where
  "all_digits x \<longleftrightarrow> x \<noteq> [] \<and> (\<forall>c \<in> set x. is_digit c)"

definition log_stamp :: "string \<Rightarrow> bool" where
  "log_stamp ts \<longleftrightarrow> (\<exists>a b c s1 d s2 h i m n x y.
     ts = [a, b, c] @ s1 @ d @ s2 @ [h, i] @ '':'' @ [m, n] @ '':'' @ [x, y] \<and>
     is_word a \<and> is_word b \<and> is_word c \<and> s1 \<noteq> [] \<and> (\<forall>c \<in> set s1. is_space c) \<and> all_digits d \<and>
     s2 \<noteq> [] \<and> (\<forall>c \<in> set s2. is_space c) \<and> all_digits [h, i, m, n, x, y])"

definition ipv4 :: "string \<Rightarrow> bool" where
  "ipv4 ip \<longleftrightarrow> (\<exists>a b c d. ip = a @ ''.'' @ b @ ''.'' @ c @ ''.'' @ d \<and>
     all_digits a \<and> all_digits b \<and> all_digits c \<and> all_digits d)"

definition stops :: "(char \<Rightarrow> bool) \<Rightarrow> string \<Rightarrow> bool" where
  "stops p s \<longleftrightarrow> s = [] \<or> \<not> p (hd s)"

lemma classes_apart: "is_digit c \<Longrightarrow> \<not> is_space c" "is_space c \<Longrightarrow> \<not> is_digit c" "\<not> is_digit (CHR ''.'')"
  "\<not> is_digit (CHR '' '')" "\<not> is_digit (CHR '':'')" "is_space (CHR '' '')"
  by (auto simp: is_digit_def is_space_def)

lemma match_One: "p c \<Longrightarrow> match_items (One p # r) (c # s) os gs = match_items r s os gs"
  by (simp add: match_items.simps)

lemma match_digits:
  "all_digits x \<Longrightarrow> stops is_digit s \<Longrightarrow> match_items r s os gs = Some g \<Longrightarrow>
   match_items (some_of is_digit @ r) (x @ s) os gs = Some g"
  by (rule match_some_of) (auto simp: all_digits_def stops_def)

lemma match_spaces:
  "x \<noteq> [] \<Longrightarrow> \<forall>c \<in> set x. is_space c \<Longrightarrow> stops is_space s \<Longrightarrow> match_items r s os gs = Some g \<Longrightarrow>
   match_items (some_of is_space @ r) (x @ s) os gs = Some g"
  by (rule match_some_of) (auto simp: stops_def)

lemma stops_hd: "x \<noteq> [] \<Longrightarrow> \<not> p (hd x) \<Longrightarrow> stops p (x @ s)"
  by (simp add: stops_def)

lemma match_close_group:
  "match_items r s os (gs @ [x]) = Some g \<Longrightarrow> match_items (Close # r) s ((x @ s) # os) gs = Some g"
  by (simp add: match_close)

lemma match_timestamp:
  assumes "log_stamp ts" and "match_items r s os (gs @ [ts]) = Some g"
  shows "match_items (timestamp_rx @ r) (ts @ s) os gs = Some g"
proof -
  obtain a b c s1 d s2 h i m n x y where ts: "ts = [a, b, c] @ s1 @ d @ s2 @ [h, i] @ '':'' @ [m, n] @ '':'' @ [x, y]"
    and w: "is_word a" "is_word b" "is_word c" and s1: "s1 \<noteq> []" "\<forall>c \<in> set s1. is_space c" and d: "all_digits d"
    and s2: "s2 \<noteq> []" "\<forall>c \<in> set s2. is_space c" and e: "all_digits [h, i, m, n, x, y]"
    using assms(1) unfolding log_stamp_def by blast
  let ?t = "[h, i] @ '':'' @ [m, n] @ '':'' @ [x, y] @ s"
  let ?os = "(ts @ s) # os"
  let ?rx = "[One is_digit, One is_digit] @ lit '':'' @ [One is_digit, One is_digit] @ lit '':'' @
     [One is_digit, One is_digit] @ Close # r"
  have "match_items ?rx ?t ?os gs = Some g"
    using e assms(2) by (simp add: all_digits_def match_One match_lit match_lit [of "'':''", simplified] match_close)
  then have "match_items (some_of is_space @ ?rx) (s2 @ ?t) ?os gs = Some g"
    by (intro match_spaces s2) (use e classes_apart in \<open>auto simp: stops_def all_digits_def\<close>)
  then have "match_items (some_of is_digit @ some_of is_space @ ?rx) (d @ s2 @ ?t) ?os gs = Some g"
    by (intro match_digits d) (use s2 classes_apart in \<open>auto simp: stops_def\<close>)
  then have "match_items (some_of is_space @ some_of is_digit @ some_of is_space @ ?rx) (s1 @ d @ s2 @ ?t) ?os gs = Some g"
    by (intro match_spaces s1) (use d classes_apart in \<open>auto simp: stops_def all_digits_def\<close>)
  then show ?thesis using w by (simp add: timestamp_rx_def match_group_open match_One ts)
qed

lemma match_address:
  assumes "ipv4 ip" and "stops is_digit s" and "match_items r s os (gs @ [ip]) = Some g"
  shows "match_items (address_rx @ r) (ip @ s) os gs = Some g"
proof -
  obtain a b c d where ip: "ip = a @ ''.'' @ b @ ''.'' @ c @ ''.'' @ d"
    and dg: "all_digits a" "all_digits b" "all_digits c" "all_digits d" using assms(1) unfolding ipv4_def by blast
  let ?os = "(ip @ s) # os"
  have dot: "stops is_digit (''.'' @ t)" for t using classes_apart by (simp add: stops_def)
  have "match_items (Close # r) s ?os gs = Some g" using assms(3) by (simp add: match_close)
  then have "match_items (some_of is_digit @ Close # r) (d @ s) ?os gs = Some g" by (rule match_digits [OF dg(4) assms(2)])
  then have "match_items (some_of is_digit @ lit ''.'' @ some_of is_digit @ Close # r) (c @ ''.'' @ d @ s) ?os gs = Some g"
    by (intro match_digits dg dot) (simp only: match_lit)
  then have "match_items (some_of is_digit @ lit ''.'' @ some_of is_digit @ lit ''.'' @ some_of is_digit @ Close # r)
      (b @ ''.'' @ c @ ''.'' @ d @ s) ?os gs = Some g"
    by (intro match_digits dg dot) (simp only: match_lit)
  then have "match_items (some_of is_digit @ lit ''.'' @ some_of is_digit @ lit ''.'' @ some_of is_digit @ lit ''.'' @
      some_of is_digit @ Close # r) (a @ ''.'' @ b @ ''.'' @ c @ ''.'' @ d @ s) ?os gs = Some g"
    by (intro match_digits dg dot) (simp only: match_lit)
  then show ?thesis by (simp add: address_rx_def match_group_open ip)
qed

definition user_name :: "string \<Rightarrow> bool" where
  "user_name u \<longleftrightarrow> u \<noteq> [] \<and> (\<forall>c \<in> set u. \<not> is_space c)"

definition origin :: "string \<Rightarrow> string \<Rightarrow> string \<Rightarrow> string" where
  "origin user ip port = user @ '' from '' @ ip @ '' port '' @ port"

lemma match_origin:
  assumes "user_name user" and "ipv4 ip" and "all_digits port" and "stops is_digit rest"
  shows "match_items origin_rx (origin user ip port @ rest) os gs = Some (gs @ [user, ip, port])"
proof -
  let ?gs = "gs @ [user, ip, port]"
  have "match_items [Close] rest ((port @ rest) # os) (gs @ [user, ip]) = Some ?gs"
    by (simp add: match_close) (simp add: match_items.simps)
  then have "match_items (some_of is_digit @ [Close]) (port @ rest) ((port @ rest) # os) (gs @ [user, ip]) = Some ?gs"
    by (rule match_digits [OF assms(3,4)])
  then have p: "match_items (group (some_of is_digit)) (port @ rest) os (gs @ [user, ip]) = Some ?gs"
    using match_group_open [of "some_of is_digit" "[]"] by simp
  have "match_items (address_rx @ lit '' port '' @ group (some_of is_digit)) (ip @ '' port '' @ port @ rest) os (gs @ [user]) = Some ?gs"
    by (rule match_address [OF assms(2)]) (use p classes_apart in \<open>simp_all add: stops_def match_lit [of "'' port ''", simplified]\<close>)
  then have a: "match_items (lit '' from '' @ address_rx @ lit '' port '' @ group (some_of is_digit))
      ('' from '' @ ip @ '' port '' @ port @ rest) os (gs @ [user]) = Some ?gs"
    by (simp only: match_lit)
  let ?s = "'' from '' @ ip @ '' port '' @ port @ rest"
  have "match_items (some_of (\<lambda>c. \<not> is_space c) @ Close # (lit '' from '' @ address_rx @ lit '' port '' @ group (some_of is_digit)))
      (user @ ?s) ((user @ ?s) # os) gs = Some ?gs"
    using assms(1) a classes_apart by (intro match_some_of match_close_group) (auto simp: user_name_def)
  then show ?thesis by (simp add: origin_rx_def user_rx_def match_group_open origin_def)
qed

lemma match_invalid_user:
  assumes "iu = [] \<or> iu = ''invalid user ''" and "user_name user"
    and "match_items r (user @ '' from '' @ t) os gs = Some g"
  shows "match_items (opt (lit ''invalid user '') # r) (iu @ user @ '' from '' @ t) os gs = Some g"
proof (cases "iu = []")
  case True
  have "\<not> prefix ''invalid user '' (user @ '' from '' @ t)"
  proof
    assume "prefix ''invalid user '' (user @ '' from '' @ t)"
    then obtain v where eq: "user @ '' from '' @ t = ''invalid'' @ '' user '' @ v" by (auto simp: prefix_def)
    let ?w = "takeWhile (\<lambda>c. c \<noteq> CHR '' '')"
    have "\<forall>c \<in> set user. c \<noteq> CHR '' ''" using assms(2) classes_apart by (auto simp: user_name_def)
    then have "?w (user @ '' from '' @ t) = user" by (simp add: takeWhile_tail)
    moreover have "?w (''invalid'' @ '' user '' @ v) = ''invalid''" by simp
    ultimately have "user = ''invalid''" using eq by simp
    then show False using eq by simp
  qed
  then have "match_items (lit ''invalid user '' @ r) (user @ '' from '' @ t) os gs = None" by (rule match_lit_None)
  then show ?thesis using True assms(3) by (simp add: opt_def match_items.simps)
next
  case False
  then have "iu = ''invalid user ''" using assms(1) by simp
  moreover have "match_items (lit ''invalid user '' @ r) (''invalid user '' @ user @ '' from '' @ t) os gs = Some g"
    using assms(3) by (simp only: match_lit)
  ultimately show ?thesis by (simp add: opt_def match_items.simps(7))
qed

definition failed_phrase :: string where "failed_phrase = ''Failed password for ''"

text \<open>A line of a failed login: nothing after the phrase contains it again, so that this is where
  the greedy \<open>.*\<close> ends.\<close>

definition failed_line :: "string \<Rightarrow> string \<Rightarrow> string \<Rightarrow> string \<Rightarrow> string \<Rightarrow> string \<Rightarrow> string \<Rightarrow> string" where
  "failed_line ts mid iu user ip port rest = ts @ mid @ failed_phrase @ iu @ origin user ip port @ rest"

definition last_phrase :: "string \<Rightarrow> bool" where
  "last_phrase t \<longleftrightarrow> \<not> sublist failed_phrase (tl (failed_phrase @ t))"

lemma find_failed:
  assumes "log_stamp ts" and "\<forall>c \<in> set (mid @ failed_phrase @ iu @ origin user ip port @ rest). is_dot c"
    and "iu = [] \<or> iu = ''invalid user ''" and "user_name user" and "ipv4 ip" and "all_digits port"
    and "stops is_digit rest" and "last_phrase (iu @ origin user ip port @ rest)"
  shows "find_submatch reFailed (failed_line ts mid iu user ip port rest) = Some [ts, user, ip, port]"
proof -
  let ?t = "iu @ origin user ip port @ rest"
  let ?r = "lit failed_phrase @ [opt (lit ''invalid user '')] @ origin_rx"
  have "match_items origin_rx (origin user ip port @ rest) [] [ts] = Some [ts, user, ip, port]"
    using match_origin [OF assms(4-7), of "[]" "[ts]"] by simp
  then have "match_items (opt (lit ''invalid user '') # origin_rx) ?t [] [ts] = Some [ts, user, ip, port]"
    unfolding origin_def append_assoc by (rule match_invalid_user [OF assms(3,4)])
  then have hit: "match_items ?r (failed_phrase @ ?t) [] [ts] = Some [ts, user, ip, port]"
    by (simp add: match_lit)
  have miss: "match_items ?r v [] [ts] = None" if v: "strict_suffix v (failed_phrase @ ?t)" for v
  proof (rule match_lit_None)
    have ne: "failed_phrase @ ?t \<noteq> []" by (simp add: failed_phrase_def)
    have "suffix v (tl (failed_phrase @ ?t))"
      using v ne by (cases "failed_phrase @ ?t") (auto simp: strict_suffix_def suffix_Cons)
    then show "\<not> prefix failed_phrase v"
      using assms(8) unfolding last_phrase_def by (meson prefix_imp_sublist sublist_order.order.trans suffix_imp_sublist)
  qed
  have "match_items (Many is_dot # ?r) (mid @ failed_phrase @ ?t) [] [ts] = Some [ts, user, ip, port]"
    by (rule match_Many_last [OF _ hit miss]) (use assms(2) in simp_all)
  then have "match_items (timestamp_rx @ Many is_dot # ?r) (ts @ mid @ failed_phrase @ ?t) [] [] = Some [ts, user, ip, port]"
    by (intro match_timestamp [OF assms(1)]) simp
  then show ?thesis by (intro find_at_start) (simp add: reFailed_def failed_line_def failed_phrase_def)
qed

lemma failed_login_general:
  assumes "log_stamp ts" and "\<forall>c \<in> set (mid @ failed_phrase @ iu @ origin user ip port @ rest). is_dot c"
    and "iu = [] \<or> iu = ''invalid user ''" and "user_name user" and "ipv4 ip" and "all_digits port"
    and "stops is_digit rest" and "last_phrase (iu @ origin user ip port @ rest)"
    and "parse_stamp False ts = Some t"
  shows "ParseAuthLogLine loc (failed_line ts mid iu user ip port rest) year w =
    (Some \<lparr>seID = 0, seOccurredAt = Date_local loc year t, seEventType = ''failed'', seUsername = Some user,
       seSourceIP = ip, sePort = Some port\<rparr>, w)"
  using find_failed [OF assms(1-8)] assms(9)
  by (simp add: ParseAuthLogLine_def ssh_event_def parseTimestamp_def eval_nat_numeral)

text \<open>
  C31: a failed login is read off its line. For every line made of a timestamp, any text, the
  phrase, an optional "invalid user", a name without blanks, a dotted address and a port, the
  event has the kind failed, that name, address and port, and the line's time in the given
  year; the clock is not read.
\<close>

theorem failed_login_parsed:
  assumes "log_stamp ts" and "\<forall>c \<in> set (mid @ failed_phrase @ iu @ origin user ip port @ rest). is_dot c"
    and "iu = [] \<or> iu = ''invalid user ''" and "user_name user" and "ipv4 ip" and "all_digits port"
    and "stops is_digit rest" and "last_phrase (iu @ origin user ip port @ rest)"
    and "parse_stamp False ts = Some t"
  shows "ParseAuthLogLine loc (failed_line ts mid iu user ip port rest) year w =
    (Some \<lparr>seID = 0, seOccurredAt = Date_local loc year t, seEventType = ''failed'', seUsername = Some user,
       seSourceIP = ip, sePort = Some port\<rparr>, w)"
  by (rule failed_login_general [OF assms])

definition sample_ts :: string where "sample_ts = ''Mar 15 10:11:22''"

lemma sample_ts_ok: "log_stamp sample_ts"
  unfolding log_stamp_def
  by (rule exI [of _ "CHR ''M''"], rule exI [of _ "CHR ''a''"], rule exI [of _ "CHR ''r''"], rule exI [of _ "'' ''"],
      rule exI [of _ "''15''"], rule exI [of _ "'' ''"], rule exI [of _ "CHR ''1''"], rule exI [of _ "CHR ''0''"],
      rule exI [of _ "CHR ''1''"], rule exI [of _ "CHR ''1''"], rule exI [of _ "CHR ''2''"], rule exI [of _ "CHR ''2''"])
    (simp add: sample_ts_def is_word_def is_letter_def is_space_def all_digits_def is_digit_def)

lemma sample_ts_stamp:
  "parse_stamp False sample_ts = Some \<lparr>st_month = 3, st_day = 15, st_hour = 10, st_min = 11, st_sec = 22\<rparr>"
  by code_simp

lemma sample_address: "ipv4 ''203.0.113.5''"
  unfolding ipv4_def
  by (rule exI [of _ "''203''"], rule exI [of _ "''0''"], rule exI [of _ "''113''"], rule exI [of _ "''5''"])
    (simp add: all_digits_def is_digit_def)

definition utc :: location where "utc = \<lparr>zone_offset = (\<lambda>_. 0), year_of = (\<lambda>_. 2026)\<rparr>"

lemma failed_login_parsed_witness:
  "fst (ParseAuthLogLine utc (failed_line sample_ts '' host sshd[123]: '' [] ''root'' ''203.0.113.5'' ''22'' '' ssh2'') 2026
     (fresh_world 0)) \<noteq> None"
proof -
  have "last_phrase ([] @ origin ''root'' ''203.0.113.5'' ''22'' @ '' ssh2'')"
    by (simp add: last_phrase_def failed_phrase_def origin_def sublist_Cons_right)
  from failed_login_parsed [OF sample_ts_ok _ _ _ sample_address _ _ this sample_ts_stamp, of "'' host sshd[123]: ''" utc 2026 "fresh_world 0"]
  show ?thesis by (simp add: is_dot_def failed_phrase_def origin_def user_name_def is_space_def all_digits_def is_digit_def stops_def)
qed

lemma no_phrase:
  assumes "sublist failed_phrase x" shows "CHR ''F'' \<in> set x"
proof -
  have "CHR ''F'' \<in> set failed_phrase" by (simp add: failed_phrase_def)
  then show ?thesis using assms by (meson set_mono_sublist subsetD)
qed

lemma plain_chars:
  "all_digits port \<Longrightarrow> \<forall>c \<in> set port. c \<noteq> CHR ''F'' \<and> is_dot c"
  "ipv4 ip \<Longrightarrow> \<forall>c \<in> set ip. c \<noteq> CHR ''F'' \<and> is_dot c"
proof -
  have dg: "c \<noteq> CHR ''F'' \<and> is_dot c" if "is_digit c" for c using that by (auto simp: is_digit_def is_dot_def)
  then show "all_digits port \<Longrightarrow> \<forall>c \<in> set port. c \<noteq> CHR ''F'' \<and> is_dot c" by (simp add: all_digits_def)
  assume "ipv4 ip"
  then have "\<forall>c \<in> set ip. is_digit c \<or> c = CHR ''.''" by (auto simp: ipv4_def all_digits_def)
  moreover have "CHR ''.'' \<noteq> CHR ''F'' \<and> is_dot (CHR ''.'')" by (simp add: is_dot_def)
  ultimately show "\<forall>c \<in> set ip. c \<noteq> CHR ''F'' \<and> is_dot c" using dg by metis
qed

text \<open>
  C32: the address of a failed login can be chosen by whoever attempts it. For every address \<open>fake\<close> and port the
  client likes, there is a name to log in with, "x from fake port p" (for any x without blanks and the letter F): the line
  \<open>sshd\<close> writes for that attempt, with the address and the port it really came from, is recorded as a failed login of x
  from the fake address and port. The real address is not recorded.
\<close>

theorem spoofed_address_recorded:
  assumes "log_stamp ts" and "parse_stamp False ts = Some t" and "\<forall>c \<in> set mid. is_dot c"
    and "iu = [] \<or> iu = ''invalid user ''" and "ipv4 ip" and "all_digits port"
    and "user_name x" and "CHR ''F'' \<notin> set x" and "ipv4 fake" and "all_digits p"
    and "name = x @ '' from '' @ fake @ '' port '' @ p"
  shows "ParseAuthLogLine loc (failed_line ts mid iu name ip port '' ssh2'') year w =
    (Some \<lparr>seID = 0, seOccurredAt = Date_local loc year t, seEventType = ''failed'', seUsername = Some x,
       seSourceIP = fake, sePort = Some p\<rparr>, w)"
proof -
  let ?rest = "'' from '' @ ip @ '' port '' @ port @ '' ssh2''"
  have line: "failed_line ts mid iu name ip port '' ssh2'' = failed_line ts mid iu x fake p ?rest"
    using assms(11) by (simp add: failed_line_def origin_def)
  have x: "\<forall>c \<in> set x. is_dot c" using assms(7) by (auto simp: user_name_def is_space_def is_dot_def)
  have plain: "\<forall>c \<in> set ip. c \<noteq> CHR ''F'' \<and> is_dot c" "\<forall>c \<in> set fake. c \<noteq> CHR ''F'' \<and> is_dot c"
    "\<forall>c \<in> set port. c \<noteq> CHR ''F'' \<and> is_dot c" "\<forall>c \<in> set p. c \<noteq> CHR ''F'' \<and> is_dot c"
    by (rule plain_chars(2) [OF assms(5)], rule plain_chars(2) [OF assms(9)], rule plain_chars(1) [OF assms(6)], rule plain_chars(1) [OF assms(10)])
  then have noF: "CHR ''F'' \<notin> set ip" "CHR ''F'' \<notin> set fake" "CHR ''F'' \<notin> set port" "CHR ''F'' \<notin> set p" by auto
  have iu: "CHR ''F'' \<notin> set iu" "\<forall>c \<in> set iu. is_dot c" using assms(4) by (auto simp: is_dot_def)
  have lp: "last_phrase (iu @ origin x fake p @ ?rest)"
  proof -
    have "CHR ''F'' \<notin> set (tl (failed_phrase @ iu @ origin x fake p @ ?rest))"
      using iu(1) assms(8) noF by (simp add: failed_phrase_def origin_def)
    then show ?thesis unfolding last_phrase_def by (meson no_phrase)
  qed
  show ?thesis
    unfolding line
  proof (rule failed_login_general [OF assms(1) _ assms(4,7,9,10) _ lp assms(2)])
    show "\<forall>c \<in> set (mid @ failed_phrase @ iu @ origin x fake p @ ?rest). is_dot c"
      using assms(3) iu(2) x plain by (simp add: failed_phrase_def origin_def ball_Un is_dot_def)
  qed (simp add: stops_def is_digit_def)
qed

lemma spoofed_address_recorded_witness:
  "fst (ParseAuthLogLine utc (failed_line sample_ts '' host sshd[7]: '' ''invalid user '' ''x from 198.51.100.7 port 22''
      ''203.0.113.5'' ''4711'' '' ssh2'') 2026 (fresh_world 0)) =
   Some \<lparr>seID = 0, seOccurredAt = Date_local utc 2026 \<lparr>st_month = 3, st_day = 15, st_hour = 10, st_min = 11, st_sec = 22\<rparr>,
     seEventType = ''failed'', seUsername = Some ''x'', seSourceIP = ''198.51.100.7'', sePort = Some ''22''\<rparr>"
proof -
  have fake: "ipv4 ''198.51.100.7''"
    unfolding ipv4_def
    by (rule exI [of _ "''198''"], rule exI [of _ "''51''"], rule exI [of _ "''100''"], rule exI [of _ "''7''"])
      (simp add: all_digits_def is_digit_def)
  from spoofed_address_recorded [OF sample_ts_ok sample_ts_stamp _ _ sample_address _ _ _ fake, of "'' host sshd[7]: ''" "''invalid user ''"
      "''4711''" "''x''" "''22''" "''x from 198.51.100.7 port 22''" utc 2026 "fresh_world 0"]
  show ?thesis by (simp add: is_dot_def all_digits_def is_digit_def user_name_def is_space_def)
qed

section \<open>Reading a growing file\<close>

text \<open>Lines whose time does not depend on the clock, and the event of such a line.\<close>

definition stamped :: "string \<Rightarrow> bool" where
  "stamped l \<longleftrightarrow> list_all (\<lambda>rx. case find_submatch rx l of None \<Rightarrow> True | Some m \<Rightarrow> parse_stamp False (m ! 0) \<noteq> None)
     [reFailed, reAccepted, reInvalid]"

definition line_event :: "location \<Rightarrow> int \<Rightarrow> string \<Rightarrow> SSHEvent option" where
  "line_event loc year l = fst (ParseAuthLogLine loc l year (fresh_world 0))"

lemma stamped_line: "stamped l \<Longrightarrow> ParseAuthLogLine loc l year w = (line_event loc year l, w)"
  by (auto simp: stamped_def line_event_def ParseAuthLogLine_def ssh_event_def parseTimestamp_def split: option.split)

lemma parse_lines_append_all:
  "\<forall>l \<in> set ls. stamped l \<Longrightarrow>
   parse_lines loc year ls w = append_all InsertSSHEvent (List.map_filter (line_event loc year) ls) w"
  by (induction ls arbitrary: w) (auto simp: stamped_line List.map_filter_simps split: option.split)

definition readable :: "string \<Rightarrow> bool" where
  "readable s \<longleftrightarrow> (\<forall>l \<in> set (raw_lines s). length l < MaxScanTokenSize \<and> stamped (drop_cr l))"

definition events_of :: "location \<Rightarrow> int \<Rightarrow> string \<Rightarrow> (int \<times> string \<times> string option \<times> string \<times> string option) list" where
  "events_of loc year s = map ssh_key (List.map_filter (line_event loc year) (scan_lines s))"

lemma events_of_append: "complete a \<Longrightarrow> events_of loc year (a @ b) = events_of loc year a @ events_of loc year b"
  by (simp add: events_of_def scan_lines_def raw_lines_append map_filter_append)

lemma append_all_clock: "clock (append_all InsertSSHEvent es w) = clock w"
  by (induction es arbitrary: w) (simp_all add: InsertSSHEvent_def)

text \<open>One poll: the whole of what was appended is read, and its events are stored in order.\<close>

lemma poll:
  assumes "healthy w" and "\<And>n. year_of loc (clock w n) = year" and "logPath p \<noteq> []" and "lastOffset p = length a"
    and "readable b" and "parse loc (Contents (a @ b) n) p w = (e, p', w')"
  shows "e = None \<and> p' = p\<lparr>lastOffset := length (a @ b)\<rparr> \<and> healthy w' \<and>
    ssh_rows w' = ssh_rows w @ events_of loc year b \<and> (\<forall>n. year_of loc (clock w' n) = year)"
proof -
  let ?w1 = "w\<lparr>clock := stream_tail (clock w)\<rparr>" and ?es = "List.map_filter (line_event loc year) (scan_lines b)"
  have t: "time_Now w = (clock w 0, ?w1)" by (simp add: time_Now_def stream_head_def)
  have st: "scan_text b = (scan_lines b, False)" using assms(5) by (intro scan_text_fits) (simp add: readable_def)
  have lines: "\<forall>l \<in> set (scan_lines b). stamped l" using assms(5) by (auto simp: readable_def scan_lines_def)
  have drop: "drop (start_offset (length (a @ b)) p) (a @ b) = b" by (simp add: start_offset_def assms(4))
  have "parse loc (Contents (a @ b) n) p w =
      (None, p\<lparr>lastOffset := length (a @ b)\<rparr>, parse_lines loc (year_of loc (clock w 0)) (scan_lines b) ?w1)"
    using assms(3) unfolding parse_def t by (simp only: log_file.case prod.case drop st if_False if_True simp_thms)
  then have "e = None \<and> p' = p\<lparr>lastOffset := length (a @ b)\<rparr> \<and> w' = append_all InsertSSHEvent ?es ?w1"
    using assms(6) by (simp add: assms(2) parse_lines_append_all [OF lines])
  moreover have "healthy ?w1" "ssh_rows ?w1 = ssh_rows w" using assms(1) by (simp_all add: ssh_rows_def healthy_def)
  moreover have "year_of loc (clock (append_all InsertSSHEvent ?es ?w1) n) = year" for n
    using assms(2) by (simp add: append_all_clock stream_tail_def)
  ultimately show ?thesis using ssh_log.append_all_serving [of ?w1 ?es] by (simp add: events_of_def)
qed


definition sample_log :: string where
  "sample_log = failed_line sample_ts '' h s: '' [] ''root'' ''203.0.113.5'' ''22'' [] @ [CHR 0x0A]"

definition sample_parser :: Parser where
  "sample_parser = newParser (\<lambda>p. p = ''/var/log/secure'')"

lemma sample_parser_eq: "sample_parser = \<lparr>logPath = ''/var/log/secure'', lastOffset = 0, warned = False\<rparr>"
  by (simp add: sample_parser_def newParser_def authLogPaths_def)

lemma other_kinds:
  "\<not> sublist ''Accepted '' l \<Longrightarrow> find_submatch reAccepted l = None"
  "\<not> sublist ''Invalid user '' l \<Longrightarrow> find_submatch reInvalid l = None"
  using find_needs_lit [of "timestamp_rx @ [Many is_dot]" "''Accepted ''"
      "[Choice [lit ''password'', lit ''publickey'']] @ lit '' for '' @ origin_rx" l]
    find_needs_lit [of "timestamp_rx @ [Many is_dot]" "''Invalid user ''" origin_rx l]
  by (auto simp: reAccepted_def reInvalid_def)

lemma sample_line_stamped: "stamped (failed_line sample_ts '' h s: '' [] ''root'' ''203.0.113.5'' ''22'' [])"
proof -
  let ?l = "failed_line sample_ts '' h s: '' [] ''root'' ''203.0.113.5'' ''22'' []"
  have "find_submatch reFailed ?l = Some [sample_ts, ''root'', ''203.0.113.5'', ''22'']"
    by (rule find_failed [OF sample_ts_ok _ _ _ sample_address])
      (simp_all add: is_dot_def failed_phrase_def origin_def user_name_def is_space_def all_digits_def is_digit_def
        stops_def last_phrase_def sublist_Cons_right)
  moreover have "find_submatch reAccepted ?l = None" "find_submatch reInvalid ?l = None"
    by (rule other_kinds, simp add: failed_line_def sample_ts_def failed_phrase_def origin_def sublist_Cons_right)+
  ultimately show ?thesis by (simp add: stamped_def sample_ts_stamp)
qed

lemma sample_log_ok: "readable sample_log" "complete sample_log"
proof -
  let ?l = "failed_line sample_ts '' h s: '' [] ''root'' ''203.0.113.5'' ''22'' []"
  have "raw_lines sample_log = [?l]"
    using raw_lines_line [of ?l "[]"]
    by (simp add: sample_log_def failed_line_def sample_ts_def failed_phrase_def origin_def)
  moreover have "length ?l < MaxScanTokenSize" "drop_cr ?l = ?l"
    by (simp_all add: MaxScanTokenSize_def drop_cr_def failed_line_def sample_ts_def failed_phrase_def origin_def)
  ultimately show "readable sample_log" by (simp add: readable_def sample_line_stamped)
  show "complete sample_log" by (simp add: complete_def sample_log_def)
qed


text \<open>
  Every restart of the server stores the log's events again. A new parser starts at offset
  0, and nothing relates its events to the stored ones: after two runs over the same file, each
  event of the file is in the table twice.
\<close>

lemma restart_stores_events_again:
  assumes "healthy w" and "\<And>n. year_of loc (clock w n) = year" and "logPath (newParser stat_ok) \<noteq> []" and "readable s"
    and "parse loc (Contents s n1) (newParser stat_ok) w = (e1, p1, w1)"
    and "parse loc (Contents s n2) (newParser stat_ok) w1 = (e2, p2, w2)"
  shows "ssh_rows w2 = ssh_rows w @ events_of loc year s @ events_of loc year s"
proof -
  have z: "lastOffset (newParser stat_ok) = length []" by (simp add: newParser_def)
  note one = poll [OF assms(1-3) z assms(4), of n1 e1 p1 w1]
  note two = poll [OF _ _ assms(3) z assms(4), of w1 loc year n2 e2 p2 w2]
  show ?thesis using one two assms(5,6) by simp
qed

lemma restart_stores_events_again_witness:
  "ssh_rows (snd (snd (parse utc (Contents sample_log 0) sample_parser
     (snd (snd (parse utc (Contents sample_log 0) sample_parser (fresh_world 0))))))) =
   events_of utc 2026 sample_log @ events_of utc 2026 sample_log"
proof -
  obtain e1 p1 w1 where one: "parse utc (Contents sample_log 0) sample_parser (fresh_world 0) = (e1, p1, w1)"
    by (metis prod.collapse)
  obtain e2 p2 w2 where two: "parse utc (Contents sample_log 0) sample_parser w1 = (e2, p2, w2)"
    by (metis prod.collapse)
  have "ssh_rows (fresh_world 0) = []" by (simp add: ssh_rows_def fresh_world_def empty_db_def)
  moreover have "logPath (newParser (\<lambda>p. p = ''/var/log/secure'')) \<noteq> []"
    using sample_parser_eq by (simp add: sample_parser_def)
  ultimately show ?thesis
    using restart_stores_events_again [OF healthy_fresh _ _ sample_log_ok(1) one [unfolded sample_parser_def]
        two [unfolded sample_parser_def], of 2026] one two
    by (simp add: utc_def)
qed

section \<open>Updates and the snapshot\<close>

lemma match_at_prefix: "match_at s sub \<longleftrightarrow> prefix sub (map to_lower_ascii s)"
  by (induction s sub rule: match_at.induct) (auto simp: to_lower_ascii_def)

text \<open>
  C34: the hand-written search. \<open>containsCI\<close> finds a text in a line exactly when the text occurs in
  the line with its capital letters made small, for all lines and texts of all lengths.
\<close>

theorem containsCI_correct: "containsCI s sub \<longleftrightarrow> sublist sub (map to_lower_ascii s)"
proof
  assume "containsCI s sub"
  then obtain i where "prefix sub (map to_lower_ascii (drop i s))"
    by (auto simp: containsCI_def findCI_def list_ex_iff match_at_prefix)
  then show "sublist sub (map to_lower_ascii s)"
    by (metis drop_map prefix_imp_sublist sublist_drop sublist_order.order.trans)
next
  assume "sublist sub (map to_lower_ascii s)"
  then obtain a b where eq: "map to_lower_ascii s = a @ sub @ b" by (auto simp: sublist_def)
  then have len: "length s = length a + length sub + length b" by (metis length_append length_map add.assoc)
  have "map to_lower_ascii (drop (length a) s) = sub @ b" using eq by (simp add: drop_map [symmetric])
  then have "match_at (drop (length a) s) sub" by (simp add: match_at_prefix)
  moreover have "length a \<in> set [0 ..< length s + 1 - length sub]" using len by auto
  moreover have "length sub \<le> length s" using len by simp
  ultimately show "containsCI s sub" unfolding containsCI_def findCI_def list_ex_iff by blast
qed

lemma classify_filters:
  "classify es s = s\<lparr>ssRecentFailed := ssRecentFailed s @ filter (\<lambda>e. seEventType e \<in> {''failed'', ''invalid_user''}) es,
     ssRecentSuccess := ssRecentSuccess s @ filter (\<lambda>e. seEventType e = ''success'') es\<rparr>"
  by (induction es arbitrary: s) auto

end
