(* ===== verification/Tunnel_Props.thy ===== *)
theory Tunnel_Props
  imports Tunnel
begin

text \<open>The events of a tunnel over a sequence of polls, and the name read off a command line.\<close>

section \<open>One poll\<close>

definition cloudflared_runs :: "proc list option \<Rightarrow> bool" where
  "cloudflared_runs procs \<longleftrightarrow> (\<exists>ps. procs = Some ps \<and> (\<exists>p \<in> set ps. is_cloudflared p))"

definition event_type :: "int \<times> string \<times> string option \<Rightarrow> string" where
  "event_type k = fst (snd k)"

lemma tunnel_rows_cong: "wdb w' = wdb w \<Longrightarrow> tunnel_rows w' = tunnel_rows w"
  by (simp add: tunnel_rows_def)

lemma getVersion_frame: "getVersion out d = (v, d') \<Longrightarrow> lastRunning d' = lastRunning d"
  by (auto simp: getVersion_def Let_def split: if_splits)

lemma process_status_frame:
  assumes "process_status version p s d w = (s', d', w')"
  shows "tsRunning s' \<and> lastRunning d' = lastRunning d \<and> wdb w' = wdb w \<and> verdicts w' = verdicts w"
  using assms getVersion_frame [of version d] 
  by (auto simp: process_status_def Let_def time_Now_def split: option.splits prod.splits)

lemma find_cloudflared:
  "(find is_cloudflared (case procs of None \<Rightarrow> [] | Some ps \<Rightarrow> ps) = None) = (\<not> cloudflared_runs procs)"
  by (auto simp: cloudflared_runs_def find_None_iff split: option.split)

definition change :: "bool \<Rightarrow> bool \<Rightarrow> string list" where
  "change was is_now = (if was = is_now then [] else [if is_now then ''connected'' else ''disconnected''])"

lemma Collect_effect:
  assumes "healthy w" and "Collect procs version d w = (s, d', w')"
  shows "healthy w' \<and> lastRunning d' = cloudflared_runs procs \<and>
    (\<exists>ks. tunnel_rows w' = tunnel_rows w @ ks \<and> map event_type ks = change (lastRunning d) (cloudflared_runs procs))"
proof -
  obtain t0 w0 where t0: "time_Now w = (t0, w0)" by (metis prod.collapse)
  have w0: "wdb w0 = wdb w" "verdicts w0 = verdicts w" using t0 by (auto simp: time_Now_def)
  let ?s = "\<lparr>tsCollectedAt = t0, tsRunning = False, tsPID = 0, tsUptimeSeconds = 0, tsTunnelName = [],
                 tsVersion = [], tsRecentEvents = []\<rparr>"
  obtain s1 d1 w1 where st: "(case find is_cloudflared (case procs of None \<Rightarrow> [] | Some ps \<Rightarrow> ps) of
      None \<Rightarrow> (?s, d, w0) | Some p \<Rightarrow> process_status version p ?s d w0) = (s1, d1, w1)" by (metis prod.collapse)
  have one: "tsRunning s1 = cloudflared_runs procs \<and> lastRunning d1 = lastRunning d \<and> wdb w1 = wdb w \<and> verdicts w1 = verdicts w"
    using st w0 find_cloudflared [of procs] by (auto split: option.splits dest!: process_status_frame)
  obtain now w2 where t2: "time_Now w1 = (now, w2)" by (metis prod.collapse)
  have w2: "wdb w2 = wdb w" "healthy w2" using t2 one assms(1) by (auto simp: time_Now_def intro: healthy_same)
  define w3 where "w3 = (case transition (lastRunning d1) (tsRunning s1) now of
      None \<Rightarrow> w2 | Some e \<Rightarrow> snd (InsertTunnelEvent e w2))"
  have w3: "healthy w3 \<and> (\<exists>ks. tunnel_rows w3 = tunnel_rows w @ ks \<and>
      map event_type ks = change (lastRunning d) (cloudflared_runs procs))"
  proof (cases "transition (lastRunning d1) (tsRunning s1) now")
    case None
    then show ?thesis using w2 one tunnel_rows_cong [OF w2(1)]
      by (auto simp: w3_def transition_def change_def split: if_splits)
  next
    case (Some e)
    obtain w3' where ins: "InsertTunnelEvent e w2 = (Inr (), w3')" "healthy w3'"
      using tunnel_log.app_serving [OF w2(2)] by blast
    have "tunnel_rows w3' = tunnel_rows w @ [tunnel_key e]"
      using tunnel_log.app_ok [OF ins(1)] tunnel_rows_cong [OF w2(1)] by simp
    moreover have "map event_type [tunnel_key e] = change (lastRunning d) (cloudflared_runs procs)"
      using Some one by (auto simp: transition_def change_def tunnel_key_def event_type_def split: if_splits)
    ultimately show ?thesis using ins Some by (auto simp: w3_def)
  qed
  obtain evs w4 where r: "RecentTunnelEvents 10 w3 = (evs, w4)" by (metis prod.collapse)
  have "wdb w4 = wdb w3" "healthy w4"
    using r w3 query_frame(1) healthy_query unfolding RecentTunnelEvents_def by (metis snd_conv)+
  moreover have "d' = d1\<lparr>lastRunning := tsRunning s1\<rparr> \<and> w' = w4"
    using assms(2) t0 st t2 r
    by (simp add: Collect_def Let_def w3_def split: prod.splits)
  ultimately show ?thesis using w3 one tunnel_rows_cong [of w4 w3] by auto
qed

section \<open>A sequence of polls\<close>

text \<open>The specification: one event per change of state.\<close>

fun changes :: "bool \<Rightarrow> bool list \<Rightarrow> string list" where
  "changes was [] = []"
| "changes was (r # rs) = change was r @ changes r rs"

definition event_name :: "bool \<Rightarrow> string" where
  "event_name r = (if r then ''connected'' else ''disconnected'')"

lemma changes_alternate:
  "successively (\<noteq>) (changes was rs) \<and> (changes was rs = [] \<or> hd (changes was rs) = event_name (\<not> was))"
proof (induction rs arbitrary: was)
  case (Cons r rs)
  show ?case
  proof (cases "was = r")
    case True
    then show ?thesis using Cons [of r] by (simp add: change_def)
  next
    case False
    then show ?thesis using Cons [of r]
      by (cases "changes r rs") (auto simp: change_def event_name_def split: if_splits)
  qed
qed simp

lemma polls_effect:
  assumes "healthy w" and "polls ps d w = (d', w')"
  shows "\<exists>ks. tunnel_rows w' = tunnel_rows w @ ks \<and>
    map event_type ks = changes (lastRunning d) (map (\<lambda>p. cloudflared_runs (fst p)) ps)"
  using assms
proof (induction ps arbitrary: d w)
  case (Cons p ps)
  obtain s d1 w1 where c: "Collect (fst p) (snd p) d w = (s, d1, w1)" by (metis prod.collapse)
  note e = Collect_effect [OF Cons.prems(1) c]
  have "polls ps d1 w1 = (d', w')" using Cons.prems(2) c by (cases p) simp
  with Cons.IH [of w1 d1] e obtain ks where ks: "tunnel_rows w' = tunnel_rows w1 @ ks"
    "map event_type ks = changes (cloudflared_runs (fst p)) (map (\<lambda>p. cloudflared_runs (fst p)) ps)" by auto
  obtain js where "tunnel_rows w1 = tunnel_rows w @ js" "map event_type js = change (lastRunning d) (cloudflared_runs (fst p))"
    using e by blast
  with ks show ?case by (intro exI [of _ "js @ ks"]) simp
qed simp

text \<open>
  C37: over any sequence of polls from the start of the server, the database serving, the events
  stored are exactly the changes of the process's state in order: they alternate, begin with
  "connected", and a failing process library counts as a process that is not there.
\<close>

theorem tunnel_events_are_transitions:
  assumes "healthy w" and "polls ps NewDetector w = (d, w')"
  shows "\<exists>ks. tunnel_rows w' = tunnel_rows w @ ks \<and>
    map event_type ks = changes False (map (\<lambda>p. cloudflared_runs (fst p)) ps) \<and>
    successively (\<noteq>) (map event_type ks) \<and> (ks = [] \<or> event_type (hd ks) = ''connected'')"
proof -
  obtain ks where ks: "tunnel_rows w' = tunnel_rows w @ ks"
    "map event_type ks = changes False (map (\<lambda>p. cloudflared_runs (fst p)) ps)"
    using polls_effect [OF assms] by (auto simp: NewDetector_def)
  moreover have "ks = [] \<or> event_type (hd ks) = ''connected''"
    using ks(2) changes_alternate [of False "map (\<lambda>p. cloudflared_runs (fst p)) ps"]
    by (cases ks) (auto simp: event_name_def dest: sym)
  ultimately show ?thesis using changes_alternate [of False "map (\<lambda>p. cloudflared_runs (fst p)) ps"] by auto
qed

definition sample_proc :: proc where
  "sample_proc = \<lparr>prPid = 7, prName = Some ''cloudflared'', prCreateTime = None, prCmdline = None\<rparr>"

lemma tunnel_events_are_transitions_witness:
  "map event_type (tunnel_rows (snd (polls [(Some [sample_proc], None), (Some [sample_proc], None), (None, None), (Some [sample_proc], None)]
     NewDetector (fresh_world 0)))) = [''connected'', ''disconnected'', ''connected'']"
proof -
  let ?ps = "[(Some [sample_proc], None :: string option), (Some [sample_proc], None), (None, None), (Some [sample_proc], None)]"
  obtain d w' where p: "polls ?ps NewDetector (fresh_world 0) = (d, w')" by (metis prod.collapse)
  have "is_cloudflared sample_proc"
    by (simp add: is_cloudflared_def sample_proc_def to_lower_ascii_def)
  then have runs: "cloudflared_runs (Some [sample_proc])" "\<not> cloudflared_runs None" by (simp_all add: cloudflared_runs_def)
  have "tunnel_rows (fresh_world 0) = []" by (simp add: tunnel_rows_def fresh_world_def empty_db_def)
  with tunnel_events_are_transitions [OF healthy_fresh p] runs show ?thesis unfolding p snd_conv by (auto simp: change_def)
qed

section \<open>The name of a tunnel\<close>

text \<open>
  The name of a tunnel is the argument after the first "--name" or "run" that has one. For a
  tunnel run with a token, \<open>cloudflared tunnel run --token TOKEN\<close>, that is the flag "--token".
\<close>

theorem tunnel_name_spec:
  assumes "k = ''--name'' \<or> k = ''run''" and "''--name'' \<notin> set pre" and "''run'' \<notin> set pre"
  shows "TunnelNameFromArgs (pre @ k # x # post) = x \<and>
    TunnelNameFromArgs (pre @ [k]) = [] \<and> TunnelNameFromArgs pre = []"
  using assms(2,3)
proof (induction pre)
  case Nil
  then show ?case using assms(1) by auto
qed auto

lemma tunnel_name_spec_witness:
  "TunnelNameFromArgs [''cloudflared'', ''tunnel'', ''run'', ''--token'', ''TOKEN''] = ''--token''"
  using tunnel_name_spec [of "''run''" "[''cloudflared'', ''tunnel'']" "''--token''" "[''TOKEN'']"] by simp

end
