(* ===== verification/Spec2Isabelle.thy ===== *)
theory Spec2Isabelle
  imports Server_Types Urlcheck_Props Sse_Props Security_Props Tunnel_Props Services
begin

text \<open>
  A verification development for monitoring24, a monitoring server for one Linux host: a Go program that
  samples the host's metrics, probes URLs, reads the SSH log, watches a cloudflared tunnel and systemd
  services, fires alerts against thresholds, stores what must survive a restart in SQLite, and serves a JSON
  API and a stream of events to a web page.

  \<^bold>\<open>How the program fits together.\<close> \<open>cmd/server/main.go\<close> reads the flags, opens the database and
  starts four loops beside the HTTP server. Every two seconds \<open>runCollector\<close> samples the host
  (\<open>internal/metrics\<close>, \<open>internal/tunnel\<close>), hands the values and the last results of the URL checks to the alert
  engine (\<open>internal/alerts\<close>), posts the new alerts and the samples to the broker (\<open>internal/sse\<close>) and keeps them for the
  API (\<open>internal/http\<close>); every thirty seconds it reads the SSH log (\<open>internal/security\<close>) and the services
  (\<open>internal/services\<close>). The checker (\<open>internal/urlcheck\<close>) has a goroutine per enabled check and is changed by the API; its
  results are relayed to the broker. All of them write through \<open>internal/storage\<close>.

  \<^bold>\<open>The theories.\<close> A component has a theory of definitions under its own name; its theorems are there or
  in the theory named with \<open>_Props\<close>.

  \<^item> \<open>Go_Prelude\<close>: answer streams of the environment, ordered selections, Go maps as association lists,
    the transition systems (\<open>reach\<close>, the locale \<open>invariant_system\<close>) and the fact collections.
  \<^item> \<open>Go_Float\<close>, \<open>Go_Std\<close>, \<open>Go_Strings\<close>, \<open>Go_Text\<close>, \<open>Go_Json\<close>: what the code uses of Go: \<open>float64\<close> with IEEE rounding,
    64-bit integers, instants, decimal printing and parsing, string operations and \<open>fmt\<close> verbs,
    a backtracking matcher for the regular expressions, the line scanner, the decoding of JSON values into
    structs.
  \<^item> \<open>Storage\<close> (\<open>schema.go\<close>, \<open>sqlite.go\<close>): the tables as lists of rows and every SQL statement as a function on
    them. \<open>exec\<close> and \<open>query\<close> consult the verdicts of the database engine, which may refuse any call, order ties and
    unordered rows as it likes, and break off a result. \<open>Storage_Facts\<close> has the well-formedness of the
    tables and what each call does when it is served; \<open>Interfaces\<close> the contracts \<open>event_log\<close> and \<open>alert_store\<close>
    the clients rely on, discharged by the storage layer; \<open>Storage_Props\<close> the layer as a transition
    system, retention, cascades, history, uptime and counts.
  \<^item> \<open>Alerts\<close> (\<open>alerts.go\<close>): thresholds, the map of active alerts and the evaluation loop, proved under
    the contract of the alert store; \<open>Alerts_Props\<close>: agreement of the map with the rows over restarts, purges and
    refused calls, and the specification of one evaluation.
  \<^item> \<open>Urlcheck\<close> (\<open>checker.go\<close>): a probe, its storing, and \<open>Add\<close>, \<open>Update\<close>, \<open>Remove\<close>, \<open>Start\<close>; \<open>Urlcheck_Sys\<close>: the
    same operations cut at the points where the mutex is released, interleaved with the goroutines; \<open>Urlcheck_Props\<close>:
    no panic in any interleaving, bounds, one goroutine per check without overlap, and the leaks with
    overlap.
  \<^item> \<open>Sse\<close> (\<open>broker.go\<close>): the channels with their capacities, the branches of \<open>Run\<close>, the stages of a connection;
    \<open>Sse_Props\<close>: no panic, order of delivery, clients that are never released, the wire format, shutdown.
  \<^item> \<open>Security\<close> (\<open>authlog.go\<close>, \<open>security.go\<close>): the expressions, the incremental parser, the snapshot;
    \<open>Security_Props\<close>: what a line is parsed to, polling against one read, restarts.
  \<^item> \<open>Tunnel\<close>, \<open>Tunnel_Props\<close> (\<open>tunnel.go\<close>): the detector and the events it stores. \<open>Services\<close> (\<open>services.go\<close>): the
    properties read off \<open>systemctl\<close>. \<open>Metrics\<close>, \<open>Metrics_Props\<close> (\<open>system.go\<close>, \<open>app.go\<close>, \<open>network.go\<close>): snapshots,
    rates of 64-bit counters, connections.
  \<^item> \<open>Config\<close> (\<open>config.go\<close>): the command line as the \<open>flag\<close> package reads it. \<open>Http\<close> (\<open>handlers.go\<close>, \<open>routes.go\<close>): the
    latest data, every handler, routing, basic authentication, the access log; \<open>Http_Props\<close>: who is served, what
    refused requests leave alone, what creating a check and putting thresholds achieve.
  \<^item> \<open>Server\<close> (\<open>main.go\<close>): startup, the ticks, the purge, the relay, as functions on the whole process;
    \<open>Server_Steps\<close>: each of them is a run of the alert engine's system, and the contract \<open>call_frame\<close> of the subsystems
    that leave the configuration and the alerts alone; \<open>Server_Props\<close>: the invariants of the
    components in the composed process, and what a tick reports; \<open>Server_Types\<close>: stored integers fit 64 bits and
    thresholds are finite, whatever is requested.

  \<^bold>\<open>State and errors.\<close> A Go struct is a record, a method a function that returns the changed record; the database is
  part of the \<open>world\<close>, with the answers of the engine and the clock still to come. An error value is the left
  side of a sum or an option beside the result, a panic is \<open>None\<close>, and the theorems prove that it does
  not occur. Ints are integers: the code computes with them only where the wrapping is written
  out (\<open>int64\<close>, \<open>seconds\<close>), counters are 64-bit words. Requests and ticks are atomic in \<open>Server_Props\<close>; the
  finer interleaving of the checker's calls is in \<open>Urlcheck_Sys\<close>, that of the broker in \<open>Sse_Props\<close>.

  \<^bold>\<open>Termination.\<close> Every loop of the model is a total function: structural recursion over what the loop consumes, or a
  measure (the redirects left for \<open>client_Do\<close>, the text left for the matcher and the scanners, the
  free bytes of the buffer for \<open>itoa\<close>). No fuel is used. The endless loops of the goroutines are step
  relations.

  \<^bold>\<open>Hypotheses.\<close> \<open>healthy\<close> says that the database engine serves every call; it is assumed only where a theorem says so.
  That bcrypt accepts a password for its own hash is assumed in \<open>api_needs_credentials\<close>, that a random
  identifier of a connection is new in \<open>sse_step\<close>.

  \<^bold>\<open>Not modelled.\<close> The text of the JSON a response or an event carries (a parameter, which may refuse a
  value), reading a request off the wire and JSON off text, the static files of the web page, the
  logs, the closing of the database, and the ten seconds \<open>Shutdown\<close> waits. The answers of the host (gopsutil,
  \<open>systemctl\<close>, \<open>apt-get\<close>, the log file, the process list, the network) and of bcrypt are arguments. The
  reading of a timestamp with a zone name in \<open>services.go\<close> and the tables of Unicode (printable characters) are
  parameters as well.
\<close>

end
